theory Spec2Isabelle
  imports Main "HOL-Library.Char_ord" "HOL-Library.List_Lexorder" "HOL-Library.Multiset"
begin

section \<open>Data model\<close>

text \<open>
  The request models of \<^verbatim>\<open>main.py\<close>. A Python \<^verbatim>\<open>str\<close> is a \<open>string\<close> holding its
  UTF-8 bytes, \<^verbatim>\<open>Optional[str]\<close> is a \<open>string option\<close>, \<^verbatim>\<open>int\<close> is \<open>int\<close>.
  The \<^verbatim>\<open>float\<close> fields \<^verbatim>\<open>amount\<close> and \<^verbatim>\<open>monthly_limit\<close> have the type parameter
  \<open>'a\<close>: the embedding does not fix how amounts are represented. The field names carry
  a prefix, since the three models share the names \<^verbatim>\<open>id\<close>, \<^verbatim>\<open>category\<close>, \<^verbatim>\<open>type\<close>,
  \<^verbatim>\<open>created_at\<close> and \<^verbatim>\<open>updated_at\<close>. A row of a table is the record of its columns.
\<close>

record 'a Transaction =
  t_id :: string
  t_date :: string
  t_category :: string
  t_type :: string
  t_amount :: 'a
  t_description :: "string option"
  t_created_at :: string
  t_updated_at :: string
  t_synced :: int

record 'a Budget =
  b_id :: string
  b_category :: string
  b_monthly_limit :: 'a
  b_created_at :: string
  b_updated_at :: string

record Category =
  c_id :: string
  c_name :: string
  c_type :: string
  c_created_at :: string
  c_icon :: "string option"

record 'a BackupData =
  transactions :: "'a Transaction list"
  budgets :: "'a Budget list"
  categories :: "Category list"

record 'a RestoreResponse =
  r_transactions :: "'a Transaction list"
  r_budgets :: "'a Budget list"
  r_categories :: "Category list"

text \<open>The dictionary that \<^verbatim>\<open>backup\<close> returns on success.\<close>

record BackupResponse =
  status :: string
  message :: string
  transactions_backed_up :: nat
  budgets_backed_up :: nat
  categories_backed_up :: nat

text \<open>
  The dictionary that \<^verbatim>\<open>health_check\<close> returns: the keys \<^verbatim>\<open>status\<close> and
  \<^verbatim>\<open>database\<close>, and either \<^verbatim>\<open>message\<close> or \<^verbatim>\<open>error\<close>. The \<^verbatim>\<open>error\<close> entry is
  \<^verbatim>\<open>str(e)\<close> in the source; the model keeps the exception \<open>e\<close> itself.
\<close>

datatype exn =
  HTTPException nat string
  | AttributeError
  | Error string

record HealthResponse =
  h_status :: string
  h_database :: string
  h_message :: "string option"
  h_error :: "exn option"

section \<open>The storage server\<close>

text \<open>
  The three tables of \<^verbatim>\<open>init_database\<close>, each a list of rows in the order of
  insertion. Only committed contents are a \<open>database\<close>; a connection works on a copy
  until it commits (the transactional engine, with the connector's default of no
  autocommit).
\<close>

record 'a database =
  transactions_table :: "'a Transaction list"
  budgets_table :: "'a Budget list"
  categories_table :: "Category list"

definition empty_database :: "'a database" where
  "empty_database =
     \<lparr>transactions_table = [], budgets_table = [], categories_table = []\<rparr>"

record 'a connection =
  committed :: "'a database"
  working :: "'a database"
  executed :: nat

definition commit :: "'a connection \<Rightarrow> 'a connection" where
  "commit conn = conn\<lparr>committed := working conn\<rparr>"

definition rollback :: "'a connection \<Rightarrow> 'a connection" where
  "rollback conn = conn\<lparr>working := committed conn\<rparr>"

text \<open>Closing a connection discards whatever it has not committed.\<close>

definition close :: "'a connection \<Rightarrow> 'a database" where
  "close conn = committed conn"

text \<open>
  What the source leaves to the server is a parameter: \<open>collate\<close> maps a string to its
  sort key under the collation of the tables (two keys of a \<^verbatim>\<open>PRIMARY KEY\<close> or
  \<^verbatim>\<open>UNIQUE\<close> column conflict when their sort keys are equal, and \<^verbatim>\<open>ORDER BY\<close>
  compares sort keys; a binary collation is the identity), and \<open>decimal_10_2\<close> is the
  conversion of a submitted amount into a \<^verbatim>\<open>DECIMAL(10, 2)\<close> column, \<open>None\<close> when
  the value is out of range.
\<close>

record 'a storage =
  collate :: "string \<Rightarrow> string"
  decimal_10_2 :: "'a \<Rightarrow> 'a option"

text \<open>
  The conditions of one request: the process environment, what
  \<^verbatim>\<open>mysql.connector.connect\<close> does, and where the connection is lost. \<open>stmt_fault n\<close>
  is the error raised by the \<open>n\<close>-th \<^verbatim>\<open>cursor.execute\<close> of the request (counted from
  0), \<open>commit_fault\<close> and \<open>rollback_fault\<close> those of \<^verbatim>\<open>connection.commit()\<close> and
  \<^verbatim>\<open>connection.rollback()\<close>.
\<close>

datatype connect_outcome = Connected | NotConnected | ConnectError string

record conditions =
  getenv :: "string \<Rightarrow> string option"
  connect_outcome :: connect_outcome
  stmt_fault :: "nat \<Rightarrow> string option"
  commit_fault :: "string option"
  rollback_fault :: "string option"

section \<open>\<^verbatim>\<open>get_db_connection\<close>\<close>

definition required_vars :: "string list" where
  "required_vars = [''DB_HOST'', ''DB_USER'', ''DB_PASSWORD'', ''DB_NAME'']"

text \<open>\<^verbatim>\<open>not os.getenv(var)\<close>: the variable is unset or empty.\<close>

definition missing_vars :: "conditions \<Rightarrow> string list" where
  "missing_vars cond =
     filter (\<lambda>var. case getenv cond var of None \<Rightarrow> True | Some v \<Rightarrow> v = []) required_vars"

fun join :: "string \<Rightarrow> string list \<Rightarrow> string" where
  "join sep [] = []"
| "join sep [x] = x"
| "join sep (x # y # ys) = x @ sep @ join sep (y # ys)"

text \<open>
  The result is \<open>Inl\<close> for the \<^verbatim>\<open>HTTPException\<close> raised, \<open>Inr None\<close> when the function
  falls off its end (\<^verbatim>\<open>is_connected()\<close> is false) and returns \<^verbatim>\<open>None\<close>, and
  \<open>Inr (Some conn)\<close> for a connection, whose working copy starts as the committed
  contents.
\<close>

definition get_db_connection ::
  "conditions \<Rightarrow> 'a database \<Rightarrow> exn + 'a connection option" where
  "get_db_connection cond db =
     (if missing_vars cond \<noteq> [] then
        Inl (HTTPException 500
          (''Missing required environment variables: '' @ join '', '' (missing_vars cond)))
      else
        (case connect_outcome cond of
           ConnectError e \<Rightarrow> Inl (HTTPException 500 (''Database connection failed: '' @ e))
         | NotConnected \<Rightarrow> Inr None
         | Connected \<Rightarrow> Inr (Some \<lparr>committed = db, working = db, executed = 0\<rparr>)))"

section \<open>\<^verbatim>\<open>health_check\<close>\<close>

text \<open>
  The body of the \<^verbatim>\<open>try\<close>: \<^verbatim>\<open>connection.close()\<close> on \<^verbatim>\<open>None\<close> raises
  \<^verbatim>\<open>AttributeError\<close>. The function returns its response and the database it leaves.
\<close>

definition health_check_try ::
  "conditions \<Rightarrow> 'a database \<Rightarrow> (exn + HealthResponse) \<times> 'a database" where
  "health_check_try cond db =
     (case get_db_connection cond db of
        Inl e \<Rightarrow> (Inl e, db)
      | Inr None \<Rightarrow> (Inl AttributeError, db)
      | Inr (Some conn) \<Rightarrow>
          (Inr \<lparr>h_status = ''healthy'', h_database = ''connected'',
                h_message = Some ''API is running and database is accessible'',
                h_error = None\<rparr>,
           close conn))"

text \<open>\<^verbatim>\<open>except Exception as e\<close> turns every exception of the body into a response.\<close>

definition health_check ::
  "conditions \<Rightarrow> 'a database \<Rightarrow> (exn + HealthResponse) \<times> 'a database" where
  "health_check cond db =
     (case health_check_try cond db of
        (Inl e, db') \<Rightarrow>
          (Inr \<lparr>h_status = ''unhealthy'', h_database = ''disconnected'',
                h_message = None, h_error = Some e\<rparr>,
           db')
      | (Inr response, db') \<Rightarrow> (Inr response, db'))"

text \<open>A connection can be established: the configuration is complete and the server answers.\<close>

definition connects :: "conditions \<Rightarrow> bool" where
  "connects cond = (missing_vars cond = [] \<and> connect_outcome cond = Connected)"

section \<open>Columns\<close>

text \<open>
  The column types of \<^verbatim>\<open>init_database\<close>, under the server's strict SQL mode (its
  default): a value that does not fit its column is refused with an error, which the
  connector raises as \<^verbatim>\<open>mysql.connector.Error\<close>. A check returns the error message,
  or \<open>None\<close> when the value fits. \<^verbatim>\<open>VARCHAR(n)\<close> holds \<open>n\<close> characters: the bytes of
  a UTF-8 string that are not continuation bytes (\<open>0x80\<close> to \<open>0xBF\<close>). \<^verbatim>\<open>TEXT\<close> holds
  65535 bytes, \<^verbatim>\<open>INT\<close> a signed 32-bit integer.
\<close>

definition char_length :: "string \<Rightarrow> nat" where
  "char_length s =
     length (filter (\<lambda>c. \<not> (128 \<le> (of_char c :: nat) \<and> (of_char c :: nat) < 192)) s)"

definition varchar :: "nat \<Rightarrow> string \<Rightarrow> string \<Rightarrow> string option" where
  "varchar n column v =
     (if char_length v \<le> n then None else Some (''Data too long for column '' @ column))"

definition text_column :: "string \<Rightarrow> string \<Rightarrow> string option" where
  "text_column column v =
     (if length v \<le> 65535 then None else Some (''Data too long for column '' @ column))"

definition int_column :: "string \<Rightarrow> int \<Rightarrow> string option" where
  "int_column column v =
     (if - 2147483648 \<le> v \<and> v \<le> 2147483647 then None
      else Some (''Out of range value for column '' @ column))"

definition decimal_column :: "'a storage \<Rightarrow> string \<Rightarrow> 'a \<Rightarrow> string option" where
  "decimal_column sto column v =
     (case decimal_10_2 sto v of
        None \<Rightarrow> Some (''Out of range value for column '' @ column)
      | Some d \<Rightarrow> None)"

text \<open>A column without \<^verbatim>\<open>NOT NULL\<close> takes \<^verbatim>\<open>None\<close> as \<^verbatim>\<open>NULL\<close>.\<close>

definition nullable :: "('v \<Rightarrow> string option) \<Rightarrow> 'v option \<Rightarrow> string option" where
  "nullable check v = (case v of None \<Rightarrow> None | Some x \<Rightarrow> check x)"

fun first_error :: "string option list \<Rightarrow> string option" where
  "first_error [] = None"
| "first_error (None # es) = first_error es"
| "first_error (Some e # es) = Some e"

text \<open>
  The row that a statement stores for a submitted record, or the error of the first
  column (in the order of the statement's column list) that refuses its value. The
  strings are stored as they are, the amount as its \<^verbatim>\<open>DECIMAL(10, 2)\<close> value.
\<close>

definition store_transaction :: "'a storage \<Rightarrow> 'a Transaction \<Rightarrow> string + 'a Transaction" where
  "store_transaction sto tr =
     (case first_error
        [varchar 36 ''id'' (t_id tr),
         varchar 10 ''date'' (t_date tr),
         varchar 100 ''category'' (t_category tr),
         varchar 10 ''type'' (t_type tr),
         decimal_column sto ''amount'' (t_amount tr),
         nullable (text_column ''description'') (t_description tr),
         varchar 20 ''created_at'' (t_created_at tr),
         varchar 20 ''updated_at'' (t_updated_at tr),
         int_column ''synced'' (t_synced tr)] of
        Some e \<Rightarrow> Inl e
      | None \<Rightarrow>
          (case decimal_10_2 sto (t_amount tr) of
             None \<Rightarrow> Inl ''Out of range value for column amount''
           | Some d \<Rightarrow> Inr (tr\<lparr>t_amount := d\<rparr>)))"

definition store_budget :: "'a storage \<Rightarrow> 'a Budget \<Rightarrow> string + 'a Budget" where
  "store_budget sto budget =
     (case first_error
        [varchar 36 ''id'' (b_id budget),
         varchar 100 ''category'' (b_category budget),
         decimal_column sto ''monthly_limit'' (b_monthly_limit budget),
         varchar 20 ''created_at'' (b_created_at budget),
         varchar 20 ''updated_at'' (b_updated_at budget)] of
        Some e \<Rightarrow> Inl e
      | None \<Rightarrow>
          (case decimal_10_2 sto (b_monthly_limit budget) of
             None \<Rightarrow> Inl ''Out of range value for column monthly_limit''
           | Some d \<Rightarrow> Inr (budget\<lparr>b_monthly_limit := d\<rparr>)))"

definition store_category :: "Category \<Rightarrow> string + Category" where
  "store_category cat =
     (case first_error
        [varchar 36 ''id'' (c_id cat),
         varchar 100 ''name'' (c_name cat),
         varchar 10 ''type'' (c_type cat),
         nullable (varchar 50 ''icon'') (c_icon cat),
         varchar 20 ''created_at'' (c_created_at cat)] of
        Some e \<Rightarrow> Inl e
      | None \<Rightarrow> Inr cat)"

section \<open>The statements of \<^verbatim>\<open>backup\<close>\<close>

text \<open>Two values of a key column conflict when the collation gives them one sort key.\<close>

definition same_key :: "'a storage \<Rightarrow> string \<Rightarrow> string \<Rightarrow> bool" where
  "same_key sto x y = (collate sto x = collate sto y)"

text \<open>
  \<^verbatim>\<open>REPLACE INTO transactions\<close>: the rows that conflict with the new row on the
  primary key \<^verbatim>\<open>id\<close> are deleted, then the new row is inserted.
\<close>

definition replace_into_transactions ::
  "'a storage \<Rightarrow> 'a Transaction \<Rightarrow> 'a Transaction list \<Rightarrow> 'a Transaction list" where
  "replace_into_transactions sto row table =
     filter (\<lambda>r. \<not> same_key sto (t_id r) (t_id row)) table @ [row]"

text \<open>
  \<^verbatim>\<open>REPLACE INTO budgets\<close>: the table has two unique keys, the primary key \<^verbatim>\<open>id\<close> and
  \<^verbatim>\<open>category\<close> (\<^verbatim>\<open>UNIQUE\<close>); the rows that conflict with the new row on either are
  deleted, then the new row is inserted. The statement raises no duplicate-key error.
\<close>

definition budget_conflict :: "'a storage \<Rightarrow> 'a Budget \<Rightarrow> 'a Budget \<Rightarrow> bool" where
  "budget_conflict sto row r =
     (same_key sto (b_id r) (b_id row) \<or> same_key sto (b_category r) (b_category row))"

definition replace_into_budgets ::
  "'a storage \<Rightarrow> 'a Budget \<Rightarrow> 'a Budget list \<Rightarrow> 'a Budget list" where
  "replace_into_budgets sto row table =
     filter (\<lambda>r. \<not> budget_conflict sto row r) table @ [row]"

text \<open>The position of the first element that satisfies \<open>P\<close>, the length when there is none.\<close>

fun index_where :: "('r \<Rightarrow> bool) \<Rightarrow> 'r list \<Rightarrow> nat" where
  "index_where P [] = 0"
| "index_where P (x # xs) = (if P x then 0 else Suc (index_where P xs))"

text \<open>
  \<^verbatim>\<open>INSERT INTO categories ... ON DUPLICATE KEY UPDATE icon = VALUES(icon)\<close>: the table
  has the unique keys \<^verbatim>\<open>id\<close> (primary) and \<^verbatim>\<open>name\<close>. When the new row conflicts with a
  stored row, that one row gets the new icon and nothing is inserted; the server finds the
  conflicting row through the first unique key that reports a duplicate, and the primary
  key is checked before \<^verbatim>\<open>name\<close>. Otherwise the new row is inserted.
\<close>

definition insert_into_categories ::
  "'a storage \<Rightarrow> Category \<Rightarrow> Category list \<Rightarrow> Category list" where
  "insert_into_categories sto row table =
     (let i = index_where (\<lambda>r. same_key sto (c_id r) (c_id row)) table;
          j = index_where (\<lambda>r. same_key sto (c_name r) (c_name row)) table
      in if i < length table then table[i := (table ! i)\<lparr>c_icon := c_icon row\<rparr>]
         else if j < length table then table[j := (table ! j)\<lparr>c_icon := c_icon row\<rparr>]
         else table @ [row])"

text \<open>
  The three \<^verbatim>\<open>cursor.execute\<close> calls of the loops, as functions of the working copy:
  the error of the statement, or the working copy after it.
\<close>

definition replace_transaction ::
  "'a storage \<Rightarrow> 'a Transaction \<Rightarrow> 'a database \<Rightarrow> string + 'a database" where
  "replace_transaction sto tr db =
     (case store_transaction sto tr of
        Inl e \<Rightarrow> Inl e
      | Inr row \<Rightarrow>
          Inr (db\<lparr>transactions_table :=
                    replace_into_transactions sto row (transactions_table db)\<rparr>))"

definition replace_budget ::
  "'a storage \<Rightarrow> 'a Budget \<Rightarrow> 'a database \<Rightarrow> string + 'a database" where
  "replace_budget sto budget db =
     (case store_budget sto budget of
        Inl e \<Rightarrow> Inl e
      | Inr row \<Rightarrow>
          Inr (db\<lparr>budgets_table := replace_into_budgets sto row (budgets_table db)\<rparr>))"

definition insert_category ::
  "'a storage \<Rightarrow> Category \<Rightarrow> 'a database \<Rightarrow> string + 'a database" where
  "insert_category sto cat db =
     (case store_category cat of
        Inl e \<Rightarrow> Inl e
      | Inr row \<Rightarrow>
          Inr (db\<lparr>categories_table := insert_into_categories sto row (categories_table db)\<rparr>))"

text \<open>
  \<^verbatim>\<open>cursor.execute\<close>: the statement raises when the connection is lost at this point or
  when the server refuses it; a refused statement leaves the working copy as it was.
\<close>

definition execute ::
  "conditions \<Rightarrow> ('a database \<Rightarrow> string + 'a database) \<Rightarrow> 'a connection \<Rightarrow>
   string + 'a connection" where
  "execute cond stmt conn =
     (case stmt_fault cond (executed conn) of
        Some e \<Rightarrow> Inl e
      | None \<Rightarrow>
          (case stmt (working conn) of
             Inl e \<Rightarrow> Inl e
           | Inr w \<Rightarrow> Inr (conn\<lparr>working := w, executed := Suc (executed conn)\<rparr>)))"

text \<open>
  A \<^verbatim>\<open>for\<close> loop of \<^verbatim>\<open>backup\<close>: the records in their order, until one raises. The
  result is the error raised, if any, and the connection as the loop leaves it.
\<close>

fun execute_all ::
  "conditions \<Rightarrow> ('r \<Rightarrow> 'a database \<Rightarrow> string + 'a database) \<Rightarrow> 'r list \<Rightarrow>
   'a connection \<Rightarrow> string option \<times> 'a connection" where
  "execute_all cond stmt [] conn = (None, conn)"
| "execute_all cond stmt (x # xs) conn =
     (case execute cond (stmt x) conn of
        Inl e \<Rightarrow> (Some e, conn)
      | Inr conn' \<Rightarrow> execute_all cond stmt xs conn')"

section \<open>\<^verbatim>\<open>backup\<close>\<close>

text \<open>
  The body of the \<^verbatim>\<open>try\<close> up to \<^verbatim>\<open>connection.commit()\<close>: transactions, then budgets,
  then categories, then the commit.
\<close>

definition backup_try ::
  "'a storage \<Rightarrow> conditions \<Rightarrow> 'a BackupData \<Rightarrow> 'a connection \<Rightarrow>
   string option \<times> 'a connection" where
  "backup_try sto cond data conn =
     (case execute_all cond (replace_transaction sto) (transactions data) conn of
        (Some e, conn') \<Rightarrow> (Some e, conn')
      | (None, conn1) \<Rightarrow>
          (case execute_all cond (replace_budget sto) (budgets data) conn1 of
             (Some e, conn') \<Rightarrow> (Some e, conn')
           | (None, conn2) \<Rightarrow>
               (case execute_all cond (insert_category sto) (categories data) conn2 of
                  (Some e, conn') \<Rightarrow> (Some e, conn')
                | (None, conn3) \<Rightarrow>
                    (case commit_fault cond of
                       Some e \<Rightarrow> (Some e, conn3)
                     | None \<Rightarrow> (None, commit conn3)))))"

text \<open>
  \<^verbatim>\<open>backup\<close> returns the response or the exception raised, and the database after the
  connection is closed. \<^verbatim>\<open>connection.cursor()\<close> on \<^verbatim>\<open>None\<close> raises
  \<^verbatim>\<open>AttributeError\<close> before the \<^verbatim>\<open>try\<close>. In the handler,
  \<^verbatim>\<open>connection.rollback()\<close> may itself raise when the connection is lost; its error then
  leaves the function in place of the \<^verbatim>\<open>HTTPException\<close>.
\<close>

definition backup ::
  "'a storage \<Rightarrow> conditions \<Rightarrow> 'a BackupData \<Rightarrow> 'a database \<Rightarrow>
   (exn + BackupResponse) \<times> 'a database" where
  "backup sto cond data db =
     (case get_db_connection cond db of
        Inl e \<Rightarrow> (Inl e, db)
      | Inr None \<Rightarrow> (Inl AttributeError, db)
      | Inr (Some conn) \<Rightarrow>
          (case backup_try sto cond data conn of
             (None, conn') \<Rightarrow>
               (Inr \<lparr>status = ''success'',
                     message = ''Backup completed successfully'',
                     transactions_backed_up = length (transactions data),
                     budgets_backed_up = length (budgets data),
                     categories_backed_up = length (categories data)\<rparr>,
                close conn')
           | (Some e, conn') \<Rightarrow>
               (case rollback_fault cond of
                  None \<Rightarrow>
                    (Inl (HTTPException 500 (''Backup failed: '' @ e)), close (rollback conn'))
                | Some e' \<Rightarrow> (Inl (Error e'), close conn'))))"

section \<open>\<^verbatim>\<open>restore\<close>\<close>

text \<open>
  \<^verbatim>\<open>SELECT * FROM transactions ORDER BY date DESC\<close>: the rows by descending sort key of
  \<^verbatim>\<open>date\<close>. The order among rows of one date is left to the server; here it is the
  reverse of the table's. The other two queries return the rows in the table's order.
\<close>

definition select_transactions :: "'a storage \<Rightarrow> 'a database \<Rightarrow> 'a Transaction list" where
  "select_transactions sto db =
     rev (sort_key (\<lambda>r. collate sto (t_date r)) (transactions_table db))"

definition query ::
  "conditions \<Rightarrow> ('a database \<Rightarrow> 'r) \<Rightarrow> 'a connection \<Rightarrow> string + 'r \<times> 'a connection" where
  "query cond q conn =
     (case stmt_fault cond (executed conn) of
        Some e \<Rightarrow> Inl e
      | None \<Rightarrow> Inr (q (working conn), conn\<lparr>executed := Suc (executed conn)\<rparr>))"

definition restore_try ::
  "'a storage \<Rightarrow> conditions \<Rightarrow> 'a connection \<Rightarrow> string + 'a RestoreResponse" where
  "restore_try sto cond conn =
     (case query cond (select_transactions sto) conn of
        Inl e \<Rightarrow> Inl e
      | Inr (ts, conn1) \<Rightarrow>
          (case query cond budgets_table conn1 of
             Inl e \<Rightarrow> Inl e
           | Inr (bs, conn2) \<Rightarrow>
               (case query cond categories_table conn2 of
                  Inl e \<Rightarrow> Inl e
                | Inr (cs, conn3) \<Rightarrow>
                    Inr \<lparr>r_transactions = ts, r_budgets = bs, r_categories = cs\<rparr>)))"

definition restore ::
  "'a storage \<Rightarrow> conditions \<Rightarrow> 'a database \<Rightarrow> (exn + 'a RestoreResponse) \<times> 'a database" where
  "restore sto cond db =
     (case get_db_connection cond db of
        Inl e \<Rightarrow> (Inl e, db)
      | Inr None \<Rightarrow> (Inl AttributeError, db)
      | Inr (Some conn) \<Rightarrow>
          (case restore_try sto cond conn of
             Inl e \<Rightarrow> (Inl (HTTPException 500 (''Restore failed: '' @ e)), close conn)
           | Inr response \<Rightarrow> (Inr response, close conn)))"

section \<open>What a request meets and what it writes\<close>

text \<open>
  \<open>no_faults\<close>: a connection can be established and no call on it loses the connection.
  \<open>raises\<close>: some statement of a backup raises, because the connection is lost at one of
  the \<^verbatim>\<open>cursor.execute\<close> calls or at the commit, or because the server refuses a record.
\<close>

definition no_faults :: "conditions \<Rightarrow> bool" where
  "no_faults cond =
     (connects cond \<and> (\<forall>n. stmt_fault cond n = None) \<and> commit_fault cond = None)"

definition raises :: "'a storage \<Rightarrow> conditions \<Rightarrow> 'a BackupData \<Rightarrow> bool" where
  "raises sto cond data =
     ((\<exists>n < length (transactions data) + length (budgets data) + length (categories data).
         stmt_fault cond n \<noteq> None) \<or>
      commit_fault cond \<noteq> None \<or>
      (\<exists>tr \<in> set (transactions data). \<exists>e. store_transaction sto tr = Inl e) \<or>
      (\<exists>budget \<in> set (budgets data). \<exists>e. store_budget sto budget = Inl e) \<or>
      (\<exists>cat \<in> set (categories data). \<exists>e. store_category cat = Inl e))"

text \<open>The rows that the statements store for a list of records, when no record is refused.\<close>

fun store_all :: "('r \<Rightarrow> string + 'row) \<Rightarrow> 'r list \<Rightarrow> string + 'row list" where
  "store_all store [] = Inr []"
| "store_all store (x # xs) =
     (case store x of
        Inl e \<Rightarrow> Inl e
      | Inr row \<Rightarrow>
          (case store_all store xs of
             Inl e \<Rightarrow> Inl e
           | Inr rows \<Rightarrow> Inr (row # rows)))"

text \<open>
  \<open>written sto data db db'\<close>: \<open>db'\<close> is \<open>db\<close> after every statement of the backup of
  \<open>data\<close>, in the order of the loops.
\<close>

definition written :: "'a storage \<Rightarrow> 'a BackupData \<Rightarrow> 'a database \<Rightarrow> 'a database \<Rightarrow> bool" where
  "written sto data db db' =
     (\<exists>ts bs cs.
        store_all (store_transaction sto) (transactions data) = Inr ts \<and>
        store_all (store_budget sto) (budgets data) = Inr bs \<and>
        store_all store_category (categories data) = Inr cs \<and>
        transactions_table db' =
          foldl (\<lambda>table row. replace_into_transactions sto row table) (transactions_table db) ts \<and>
        budgets_table db' =
          foldl (\<lambda>table row. replace_into_budgets sto row table) (budgets_table db) bs \<and>
        categories_table db' =
          foldl (\<lambda>table row. insert_into_categories sto row table) (categories_table db) cs)"

text \<open>\<open>accepts\<close>: the server refuses no record of the data.\<close>

definition accepts :: "'a storage \<Rightarrow> 'a BackupData \<Rightarrow> bool" where
  "accepts sto data =
     (\<exists>ts bs cs.
        store_all (store_transaction sto) (transactions data) = Inr ts \<and>
        store_all (store_budget sto) (budgets data) = Inr bs \<and>
        store_all store_category (categories data) = Inr cs)"

text \<open>
  \<open>unique_keys\<close>: the tables satisfy the \<^verbatim>\<open>PRIMARY KEY\<close> and \<^verbatim>\<open>UNIQUE\<close> constraints of
  \<^verbatim>\<open>init_database\<close>.
\<close>

definition unique_keys :: "'a storage \<Rightarrow> 'a database \<Rightarrow> bool" where
  "unique_keys sto db =
     (distinct (map (\<lambda>r. collate sto (t_id r)) (transactions_table db)) \<and>
      distinct (map (\<lambda>r. collate sto (b_id r)) (budgets_table db)) \<and>
      distinct (map (\<lambda>r. collate sto (b_category r)) (budgets_table db)) \<and>
      distinct (map (\<lambda>r. collate sto (c_id r)) (categories_table db)) \<and>
      distinct (map (\<lambda>r. collate sto (c_name r)) (categories_table db)))"

text \<open>
  \<^verbatim>\<open>REPLACE INTO\<close> for any relation of conflict between rows, and the rows of a list of
  replaced rows that no later row of the list replaces.
\<close>

definition replace_into :: "('row \<Rightarrow> 'row \<Rightarrow> bool) \<Rightarrow> 'row \<Rightarrow> 'row list \<Rightarrow> 'row list" where
  "replace_into conflict row table = filter (\<lambda>r. \<not> conflict row r) table @ [row]"

fun surviving :: "('row \<Rightarrow> 'row \<Rightarrow> bool) \<Rightarrow> 'row list \<Rightarrow> 'row list" where
  "surviving conflict [] = []"
| "surviving conflict (x # xs) =
     (if \<exists>y\<in>set xs. conflict y x then surviving conflict xs else x # surviving conflict xs)"

text \<open>
  The row that \<^verbatim>\<open>INSERT ... ON DUPLICATE KEY UPDATE\<close> meets in the categories: the position
  of the row with the id of the new row, else of the row with its name, else the length of
  the table.
\<close>

definition target :: "'a storage \<Rightarrow> Category \<Rightarrow> Category list \<Rightarrow> nat" where
  "target sto row table =
     (let i = index_where (\<lambda>r. same_key sto (c_id r) (c_id row)) table
      in if i < length table then i
         else index_where (\<lambda>r. same_key sto (c_name r) (c_name row)) table)"

section \<open>A server and conditions for the examples\<close>

text \<open>
  A server with a binary collation whose amounts are whole numbers, which a
  \<^verbatim>\<open>DECIMAL(10, 2)\<close> column holds exactly up to eight digits; and the conditions of a
  request that meets a complete configuration and a server that answers every call.
\<close>

definition binary_storage :: "int storage" where
  "binary_storage =
     \<lparr>collate = (\<lambda>s. s),
      decimal_10_2 = (\<lambda>v. if - 100000000 < v \<and> v < 100000000 then Some v else None)\<rparr>"

definition reachable :: conditions where
  "reachable =
     \<lparr>getenv = (\<lambda>var. Some ''configured''),
      connect_outcome = Connected,
      stmt_fault = (\<lambda>n. None),
      commit_fault = None,
      rollback_fault = None\<rparr>"

text \<open>Records for the examples; the icons are the UTF-8 bytes of U+1F354 and U+1F355.\<close>

definition transaction_january :: "int Transaction" where
  "transaction_january =
     \<lparr>t_id = ''t1'', t_date = ''2024-01-01'', t_category = ''Food'', t_type = ''expense'',
      t_amount = 12, t_description = Some ''lunch'', t_created_at = ''2024-01-01 12:00:00'',
      t_updated_at = ''2024-01-01 12:00:00'', t_synced = 1\<rparr>"

definition transaction_march :: "int Transaction" where
  "transaction_march =
     \<lparr>t_id = ''t2'', t_date = ''2024-03-15'', t_category = ''Salary'', t_type = ''income'',
      t_amount = 3000, t_description = None, t_created_at = ''2024-03-15 09:00:00'',
      t_updated_at = ''2024-03-15 09:00:00'', t_synced = 1\<rparr>"

definition budget_food_first :: "int Budget" where
  "budget_food_first =
     \<lparr>b_id = ''b1'', b_category = ''Food'', b_monthly_limit = 400,
      b_created_at = ''2024-01-01 12:00:00'', b_updated_at = ''2024-01-01 12:00:00''\<rparr>"

definition budget_food_second :: "int Budget" where
  "budget_food_second =
     \<lparr>b_id = ''b2'', b_category = ''Food'', b_monthly_limit = 500,
      b_created_at = ''2024-02-01 12:00:00'', b_updated_at = ''2024-02-01 12:00:00''\<rparr>"

definition category_food_c1 :: Category where
  "category_food_c1 =
     \<lparr>c_id = ''c1'', c_name = ''Food'', c_type = ''expense'',
      c_created_at = ''2024-01-01 12:00:00'',
      c_icon = Some [CHR 0xF0, CHR 0x9F, CHR 0x8D, CHR 0x94]\<rparr>"

definition category_food_c2 :: Category where
  "category_food_c2 =
     \<lparr>c_id = ''c2'', c_name = ''Food'', c_type = ''income'',
      c_created_at = ''2024-02-01 12:00:00'',
      c_icon = Some [CHR 0xF0, CHR 0x9F, CHR 0x8D, CHR 0x95]\<rparr>"

text \<open>Conditions under which the connection is lost at the second statement of a request.\<close>

definition lost_at_second :: conditions where
  "lost_at_second =
     reachable\<lparr>stmt_fault := (\<lambda>n. if n = 1 then Some ''Lost connection to MySQL server'' else None)\<rparr>"

definition budget_third :: "int Budget" where
  "budget_third =
     \<lparr>b_id = ''b3'', b_category = ''Food'', b_monthly_limit = 600,
      b_created_at = ''2024-03-01 12:00:00'', b_updated_at = ''2024-03-01 12:00:00''\<rparr>"

text \<open>More categories, with the ids and names of the two above.\<close>

definition category_rent_c2 :: Category where
  "category_rent_c2 =
     \<lparr>c_id = ''c2'', c_name = ''Rent'', c_type = ''expense'',
      c_created_at = ''2024-01-02 12:00:00'', c_icon = None\<rparr>"

definition category_food_c3 :: Category where
  "category_food_c3 =
     \<lparr>c_id = ''c3'', c_name = ''Food'', c_type = ''expense'',
      c_created_at = ''2024-03-01 12:00:00'', c_icon = None\<rparr>"

definition category_rent_c1 :: Category where
  "category_rent_c1 =
     \<lparr>c_id = ''c1'', c_name = ''Rent'', c_type = ''expense'',
      c_created_at = ''2024-02-01 12:00:00'', c_icon = Some ''home''\<rparr>"

definition category_travel_c1 :: Category where
  "category_travel_c1 =
     \<lparr>c_id = ''c1'', c_name = ''Travel'', c_type = ''expense'',
      c_created_at = ''2024-03-01 12:00:00'', c_icon = None\<rparr>"

section \<open>Health check\<close>

lemma get_db_connection_connects:
  "connects cond \<Longrightarrow>
   get_db_connection cond db = Inr (Some \<lparr>committed = db, working = db, executed = 0\<rparr>)"
  by (simp add: connects_def get_db_connection_def)

lemma get_db_connection_Some:
  "get_db_connection cond db = Inr (Some conn) \<Longrightarrow>
   connects cond \<and> conn = \<lparr>committed = db, working = db, executed = 0\<rparr>"
  by (auto simp: connects_def get_db_connection_def split: if_splits connect_outcome.splits)

text \<open>
  C8. For every condition of the storage, \<^verbatim>\<open>health_check\<close> returns a response (it never
  raises) and leaves the database as it was; the response is the healthy one when a
  connection can be established, and the unhealthy one, carrying the error, otherwise.
\<close>

theorem health_check_never_raises:
  "\<exists>response.
     health_check cond db = (Inr response, db) \<and>
     (if connects cond
      then h_status response = ''healthy'' \<and> h_database response = ''connected'' \<and>
           h_error response = None
      else h_status response = ''unhealthy'' \<and> h_database response = ''disconnected'' \<and>
           h_error response \<noteq> None)"
proof (cases "connects cond")
  case True
  then show ?thesis
    by (simp add: health_check_def health_check_try_def get_db_connection_connects close_def)
next
  case False
  then show ?thesis
    by (auto simp: health_check_def health_check_try_def get_db_connection_def connects_def
        split: connect_outcome.splits)
qed

section \<open>Connections and transactions\<close>

lemma execute_committed:
  "execute cond stmt conn = Inr conn' \<Longrightarrow> committed conn' = committed conn"
  by (auto simp: execute_def split: option.splits sum.splits)

lemma execute_all_committed:
  "execute_all cond stmt xs conn = (r, conn') \<Longrightarrow> committed conn' = committed conn"
proof (induction xs arbitrary: conn)
  case Nil
  then show ?case by simp
next
  case (Cons x xs)
  show ?case
  proof (cases "execute cond (stmt x) conn")
    case (Inl e)
    with Cons.prems show ?thesis by simp
  next
    case (Inr c)
    with Cons.prems have "execute_all cond stmt xs c = (r, conn')" by simp
    from Cons.IH [OF this] execute_committed [OF Inr] show ?thesis by simp
  qed
qed

lemma execute_all_None:
  assumes "\<And>x w. stmt x w = (case store x of Inl e \<Rightarrow> Inl e | Inr row \<Rightarrow> Inr (step row w))"
    and "execute_all cond stmt xs conn = (None, conn')"
  shows "\<exists>rows. store_all store xs = Inr rows \<and>
           conn' = conn\<lparr>working := foldl (\<lambda>w row. step row w) (working conn) rows,
                        executed := executed conn + length xs\<rparr>"
  using assms(2)
proof (induction xs arbitrary: conn)
  case Nil
  then show ?case by simp
next
  case (Cons x xs)
  from Cons.prems obtain c where c: "execute cond (stmt x) conn = Inr c"
    and rest: "execute_all cond stmt xs c = (None, conn')"
    by (auto split: sum.splits)
  from c obtain row where row: "store x = Inr row"
    and cdef: "c = conn\<lparr>working := step row (working conn), executed := Suc (executed conn)\<rparr>"
    by (auto simp: execute_def assms(1) split: option.splits sum.splits)
  from Cons.IH [OF rest] obtain rows where rows: "store_all store xs = Inr rows"
    and conn': "conn' = c\<lparr>working := foldl (\<lambda>w row. step row w) (working c) rows,
                        executed := executed c + length xs\<rparr>"
    by blast
  show ?case
    using row rows conn' cdef by simp
qed

lemma execute_all_no_fault:
  assumes "\<And>x w. stmt x w = (case store x of Inl e \<Rightarrow> Inl e | Inr row \<Rightarrow> Inr (step row w))"
    and "\<forall>n. stmt_fault cond n = None"
    and "store_all store xs = Inr rows"
  shows "execute_all cond stmt xs conn =
           (None, conn\<lparr>working := foldl (\<lambda>w row. step row w) (working conn) rows,
                        executed := executed conn + length xs\<rparr>)"
  using assms(3)
proof (induction xs arbitrary: conn rows)
  case Nil
  then show ?case by simp
next
  case (Cons x xs)
  from Cons.prems obtain row rest where row: "store x = Inr row"
    and rest: "store_all store xs = Inr rest" and rows: "rows = row # rest"
    by (auto split: sum.splits)
  have "execute cond (stmt x) conn =
          Inr (conn\<lparr>working := step row (working conn), executed := Suc (executed conn)\<rparr>)"
    using assms(2) row by (simp add: execute_def assms(1))
  then show ?case
    using Cons.IH [OF rest] rows by simp
qed

lemma foldl_transactions:
  "foldl (\<lambda>w row. w\<lparr>transactions_table := f row (transactions_table w)\<rparr>) w rows =
     w\<lparr>transactions_table := foldl (\<lambda>table row. f row table) (transactions_table w) rows\<rparr>"
  by (induction rows arbitrary: w) simp_all

lemma foldl_budgets:
  "foldl (\<lambda>w row. w\<lparr>budgets_table := f row (budgets_table w)\<rparr>) w rows =
     w\<lparr>budgets_table := foldl (\<lambda>table row. f row table) (budgets_table w) rows\<rparr>"
  by (induction rows arbitrary: w) simp_all

lemma foldl_categories:
  "foldl (\<lambda>w row. w\<lparr>categories_table := f row (categories_table w)\<rparr>) w rows =
     w\<lparr>categories_table := foldl (\<lambda>table row. f row table) (categories_table w) rows\<rparr>"
  by (induction rows arbitrary: w) simp_all

lemma backup_try_committed:
  "backup_try sto cond data conn = (r, conn') \<Longrightarrow> r \<noteq> None \<Longrightarrow> committed conn' = committed conn"
  unfolding backup_try_def
  by (auto split: prod.splits option.splits dest!: execute_all_committed)

lemma backup_try_None:
  assumes "backup_try sto cond data conn = (None, conn')"
  shows "written sto data (working conn) (committed conn')"
proof -
  from assms obtain c1 c2 c3 where
    1: "execute_all cond (replace_transaction sto) (transactions data) conn = (None, c1)" and
    2: "execute_all cond (replace_budget sto) (budgets data) c1 = (None, c2)" and
    3: "execute_all cond (insert_category sto) (categories data) c2 = (None, c3)" and
    4: "conn' = commit c3"
    unfolding backup_try_def by (auto split: prod.splits option.splits)
  from execute_all_None [of "replace_transaction sto" "\<lambda>row w. w\<lparr>transactions_table := replace_into_transactions sto row (transactions_table w)\<rparr>" "store_transaction sto", OF _ 1]
  obtain ts where ts: "store_all (store_transaction sto) (transactions data) = Inr ts"
    and c1: "working c1 = (working conn)\<lparr>transactions_table :=
        foldl (\<lambda>table row. replace_into_transactions sto row table) (transactions_table (working conn)) ts\<rparr>"
    by (auto simp: replace_transaction_def foldl_transactions)
  from execute_all_None [of "replace_budget sto" "\<lambda>row w. w\<lparr>budgets_table := replace_into_budgets sto row (budgets_table w)\<rparr>" "store_budget sto", OF _ 2]
  obtain bs where bs: "store_all (store_budget sto) (budgets data) = Inr bs"
    and c2: "working c2 = (working c1)\<lparr>budgets_table :=
        foldl (\<lambda>table row. replace_into_budgets sto row table) (budgets_table (working c1)) bs\<rparr>"
    by (auto simp: replace_budget_def foldl_budgets)
  from execute_all_None [of "insert_category sto" "\<lambda>row w. w\<lparr>categories_table := insert_into_categories sto row (categories_table w)\<rparr>" "store_category", OF _ 3]
  obtain cs where cs: "store_all store_category (categories data) = Inr cs"
    and c3: "working c3 = (working c2)\<lparr>categories_table :=
        foldl (\<lambda>table row. insert_into_categories sto row table) (categories_table (working c2)) cs\<rparr>"
    by (auto simp: insert_category_def foldl_categories)
  show ?thesis
    unfolding written_def using ts bs cs c1 c2 c3 4 by (auto simp: commit_def)
qed

lemma backup_Inr:
  assumes "backup sto cond data db = (Inr response, db')"
  shows "written sto data db db' \<and> connects cond \<and>
         response = \<lparr>status = ''success'', message = ''Backup completed successfully'',
                     transactions_backed_up = length (transactions data),
                     budgets_backed_up = length (budgets data),
                     categories_backed_up = length (categories data)\<rparr>"
proof -
  from assms obtain conn where conn: "get_db_connection cond db = Inr (Some conn)"
    by (auto simp: backup_def split: sum.splits option.splits)
  from get_db_connection_Some [OF conn] have c: "connects cond"
    and conn_def: "conn = \<lparr>committed = db, working = db, executed = 0\<rparr>" by simp_all
  from assms conn obtain conn' where tr: "backup_try sto cond data conn = (None, conn')"
    and db': "db' = close conn'"
    and resp: "response = \<lparr>status = ''success'', message = ''Backup completed successfully'',
                     transactions_backed_up = length (transactions data),
                     budgets_backed_up = length (budgets data),
                     categories_backed_up = length (categories data)\<rparr>"
    by (auto simp: backup_def split: prod.splits option.splits)
  from backup_try_None [OF tr] have "written sto data db db'"
    by (simp add: conn_def db' close_def)
  with c resp show ?thesis by simp
qed

lemma backup_Inl:
  assumes "backup sto cond data db = (Inl e, db')"
  shows "db' = db"
proof (cases "get_db_connection cond db")
  case (Inl e')
  with assms show ?thesis by (simp add: backup_def)
next
  case (Inr c)
  show ?thesis
  proof (cases c)
    case None
    with Inr assms show ?thesis by (simp add: backup_def)
  next
    case (Some conn)
    with Inr have conn: "get_db_connection cond db = Inr (Some conn)" by simp
    from get_db_connection_Some [OF conn]
    have conn_def: "conn = \<lparr>committed = db, working = db, executed = 0\<rparr>" by simp
    obtain r conn' where tr: "backup_try sto cond data conn = (r, conn')"
      by (cases "backup_try sto cond data conn")
    from assms conn tr have r: "r \<noteq> None"
      by (auto simp: backup_def split: option.splits)
    from backup_try_committed [OF tr r] have "committed conn' = db"
      by (simp add: conn_def)
    with assms conn tr r show ?thesis
      by (auto simp: backup_def close_def rollback_def split: option.splits)
  qed
qed

lemma backup_no_faults:
  assumes "no_faults cond"
    and ts: "store_all (store_transaction sto) (transactions data) = Inr ts"
    and bs: "store_all (store_budget sto) (budgets data) = Inr bs"
    and cs: "store_all store_category (categories data) = Inr cs"
  shows "backup sto cond data db =
    (Inr \<lparr>status = ''success'', message = ''Backup completed successfully'',
          transactions_backed_up = length (transactions data),
          budgets_backed_up = length (budgets data),
          categories_backed_up = length (categories data)\<rparr>,
     \<lparr>transactions_table =
        foldl (\<lambda>table row. replace_into_transactions sto row table) (transactions_table db) ts,
      budgets_table =
        foldl (\<lambda>table row. replace_into_budgets sto row table) (budgets_table db) bs,
      categories_table =
        foldl (\<lambda>table row. insert_into_categories sto row table) (categories_table db) cs\<rparr>)"
proof -
  from assms(1) have c: "connects cond" and f: "\<forall>n. stmt_fault cond n = None"
    and cf: "commit_fault cond = None" by (simp_all add: no_faults_def)
  note e1 = execute_all_no_fault [of "replace_transaction sto" "\<lambda>row w. w\<lparr>transactions_table := replace_into_transactions sto row (transactions_table w)\<rparr>" "store_transaction sto",
      OF _ f ts, unfolded foldl_transactions]
  note e2 = execute_all_no_fault [of "replace_budget sto" "\<lambda>row w. w\<lparr>budgets_table := replace_into_budgets sto row (budgets_table w)\<rparr>" "store_budget sto",
      OF _ f bs, unfolded foldl_budgets]
  note e3 = execute_all_no_fault [of "insert_category sto" "\<lambda>row w. w\<lparr>categories_table := insert_into_categories sto row (categories_table w)\<rparr>" "store_category",
      OF _ f cs, unfolded foldl_categories]
  show ?thesis
    unfolding backup_def backup_try_def get_db_connection_connects [OF c]
    by (simp add: e1 e2 e3 replace_transaction_def replace_budget_def insert_category_def cf
        commit_def close_def)
qed

section \<open>All or nothing\<close>

lemma store_all_Inr_set:
  "store_all store xs = Inr rows \<Longrightarrow> x \<in> set xs \<Longrightarrow> \<exists>row. store x = Inr row"
  by (induction xs arbitrary: rows) (auto split: sum.splits)

lemma execute_no_fault:
  "execute cond stmt conn = Inr conn' \<Longrightarrow>
   stmt_fault cond (executed conn) = None \<and> executed conn' = Suc (executed conn)"
  by (auto simp: execute_def split: option.splits sum.splits)

lemma execute_all_faults:
  "execute_all cond stmt xs conn = (None, conn') \<Longrightarrow>
   executed conn' = executed conn + length xs \<and>
   (\<forall>n. executed conn \<le> n \<and> n < executed conn + length xs \<longrightarrow> stmt_fault cond n = None)"
proof (induction xs arbitrary: conn)
  case Nil
  then show ?case by auto
next
  case (Cons x xs)
  from Cons.prems obtain c where c: "execute cond (stmt x) conn = Inr c"
    and rest: "execute_all cond stmt xs c = (None, conn')"
    by (auto split: sum.splits)
  from execute_no_fault [OF c] have here: "stmt_fault cond (executed conn) = None"
    and next_one: "executed c = Suc (executed conn)" by simp_all
  from Cons.IH [OF rest] next_one have len: "executed conn' = executed conn + length (x # xs)"
    and later: "\<forall>n. Suc (executed conn) \<le> n \<and> n < Suc (executed conn) + length xs \<longrightarrow>
                  stmt_fault cond n = None"
    by simp_all
  have "stmt_fault cond n = None"
    if "executed conn \<le> n" and "n < executed conn + length (x # xs)" for n
  proof (cases "n = executed conn")
    case True
    with here show ?thesis by simp
  next
    case False
    with that later show ?thesis by simp
  qed
  with len show ?case by blast
qed

lemma backup_try_faults:
  assumes "backup_try sto cond data conn = (None, conn')" and "executed conn = 0"
  shows "commit_fault cond = None \<and>
         (\<forall>n < length (transactions data) + length (budgets data) + length (categories data).
            stmt_fault cond n = None)"
proof -
  from assms(1) obtain c1 c2 c3 where
    1: "execute_all cond (replace_transaction sto) (transactions data) conn = (None, c1)" and
    2: "execute_all cond (replace_budget sto) (budgets data) c1 = (None, c2)" and
    3: "execute_all cond (insert_category sto) (categories data) c2 = (None, c3)" and
    4: "commit_fault cond = None"
    unfolding backup_try_def by (auto split: prod.splits option.splits)
  note f1 = execute_all_faults [OF 1] and f2 = execute_all_faults [OF 2]
    and f3 = execute_all_faults [OF 3]
  have "stmt_fault cond n = None"
    if "n < length (transactions data) + length (budgets data) + length (categories data)" for n
  proof -
    consider "n < length (transactions data)"
      | "length (transactions data) \<le> n" "n < length (transactions data) + length (budgets data)"
      | "length (transactions data) + length (budgets data) \<le> n"
      by linarith
    then show ?thesis
    proof cases
      case 1
      with f1 assms(2) show ?thesis by simp
    next
      case 2
      with f1 f2 assms(2) show ?thesis by simp
    next
      case 3
      with f1 f2 f3 assms(2) that show ?thesis by simp
    qed
  qed
  with 4 show ?thesis by simp
qed

lemma backup_Inr_not_raises:
  assumes "backup sto cond data db = (Inr response, db')"
  shows "\<not> raises sto cond data"
proof -
  from assms obtain conn where conn: "get_db_connection cond db = Inr (Some conn)"
    by (auto simp: backup_def split: sum.splits option.splits)
  from get_db_connection_Some [OF conn] have e0: "executed conn = 0" by simp
  from assms conn obtain conn' where tr: "backup_try sto cond data conn = (None, conn')"
    by (auto simp: backup_def split: prod.splits option.splits)
  from backup_Inr [OF assms] obtain ts bs cs where
    ts: "store_all (store_transaction sto) (transactions data) = Inr ts" and
    bs: "store_all (store_budget sto) (budgets data) = Inr bs" and
    cs: "store_all store_category (categories data) = Inr cs"
    unfolding written_def by blast
  from store_all_Inr_set [OF ts] have 1: "\<forall>x\<in>set (transactions data). \<forall>e. store_transaction sto x \<noteq> Inl e"
    by fastforce
  from store_all_Inr_set [OF bs] have 2: "\<forall>x\<in>set (budgets data). \<forall>e. store_budget sto x \<noteq> Inl e"
    by fastforce
  from store_all_Inr_set [OF cs] have 3: "\<forall>x\<in>set (categories data). \<forall>e. store_category x \<noteq> Inl e"
    by fastforce
  from backup_try_faults [OF tr e0] 1 2 3 show ?thesis
    by (auto simp: raises_def)
qed

text \<open>
  C2. A backup in which some statement raises returns a failure and leaves the database
  as it was before the call, whatever the statements before the failing one had
  written.
\<close>

theorem backup_raises_rolled_back:
  assumes "raises sto cond data"
  shows "\<exists>e. backup sto cond data db = (Inl e, db)"
proof (cases "backup sto cond data db")
  case (Pair result db')
  show ?thesis
  proof (cases result)
    case (Inl e)
    with Pair backup_Inl [of sto cond data db e db'] show ?thesis by simp
  next
    case (Inr response)
    with Pair backup_Inr_not_raises [of sto cond data db response db'] assms
    show ?thesis by simp
  qed
qed

lemma store_transaction_january: "store_transaction binary_storage transaction_january = Inr transaction_january"
  by (simp add: store_transaction_def transaction_january_def binary_storage_def varchar_def
      char_length_def decimal_column_def nullable_def text_column_def int_column_def)

lemma store_budget_food_first: "store_budget binary_storage budget_food_first = Inr budget_food_first"
  by (simp add: store_budget_def budget_food_first_def binary_storage_def varchar_def
      char_length_def decimal_column_def)

theorem backup_raises_rolled_back_witness:
  "raises binary_storage lost_at_second
     \<lparr>transactions = [transaction_january], budgets = [budget_food_first], categories = []\<rparr> \<and>
   stmt_fault lost_at_second 0 = None \<and>
   (\<exists>e. backup binary_storage lost_at_second
      \<lparr>transactions = [transaction_january], budgets = [budget_food_first], categories = []\<rparr>
      empty_database = (Inl e, empty_database))"
proof -
  have r: "raises binary_storage lost_at_second
     \<lparr>transactions = [transaction_january], budgets = [budget_food_first], categories = []\<rparr>"
    by (simp add: raises_def lost_at_second_def reachable_def)
  from backup_raises_rolled_back [OF r] r show ?thesis
    by (simp add: lost_at_second_def reachable_def)
qed

text \<open>
  C7. A successful backup reports the lengths of the three submitted sequences; and a
  backup of three empty sequences succeeds with zero counts and leaves the database as it
  was, whenever a connection can be established and the commit goes through.
\<close>

theorem backup_reports_lengths:
  "(backup sto cond data db = (Inr response, db') \<longrightarrow>
      transactions_backed_up response = length (transactions data) \<and>
      budgets_backed_up response = length (budgets data) \<and>
      categories_backed_up response = length (categories data)) \<and>
   (connects cond \<and> commit_fault cond = None \<longrightarrow>
      backup sto cond \<lparr>transactions = [], budgets = [], categories = []\<rparr> db =
        (Inr \<lparr>status = ''success'', message = ''Backup completed successfully'',
              transactions_backed_up = 0, budgets_backed_up = 0, categories_backed_up = 0\<rparr>,
         db))"
proof -
  have 1: "transactions_backed_up response = length (transactions data) \<and>
      budgets_backed_up response = length (budgets data) \<and>
      categories_backed_up response = length (categories data)"
    if "backup sto cond data db = (Inr response, db')"
    using backup_Inr [OF that] by simp
  have 2: "backup sto cond \<lparr>transactions = [], budgets = [], categories = []\<rparr> db =
        (Inr \<lparr>status = ''success'', message = ''Backup completed successfully'',
              transactions_backed_up = 0, budgets_backed_up = 0, categories_backed_up = 0\<rparr>,
         db)"
    if "connects cond" and "commit_fault cond = None"
    using that(2)
    by (simp add: backup_def backup_try_def get_db_connection_connects [OF that(1)]
        commit_def close_def)
  from 1 2 show ?thesis by blast
qed

lemma connects_reachable: "connects reachable"
  by (simp add: connects_def reachable_def missing_vars_def required_vars_def)

lemma no_faults_reachable: "no_faults reachable"
  by (simp add: no_faults_def connects_reachable) (simp add: reachable_def)

theorem backup_reports_lengths_witness:
  "backup binary_storage reachable
     \<lparr>transactions = [transaction_january], budgets = [budget_food_first], categories = []\<rparr>
     empty_database =
     (Inr \<lparr>status = ''success'', message = ''Backup completed successfully'',
           transactions_backed_up = 1, budgets_backed_up = 1, categories_backed_up = 0\<rparr>,
      \<lparr>transactions_table = [transaction_january], budgets_table = [budget_food_first],
       categories_table = []\<rparr>) \<and>
   transactions_backed_up \<lparr>status = ''success'', message = ''Backup completed successfully'',
           transactions_backed_up = 1, budgets_backed_up = 1, categories_backed_up = 0\<rparr> =
     length (transactions \<lparr>transactions = [transaction_january], budgets = [budget_food_first],
       categories = ([] :: Category list)\<rparr>) \<and>
   connects reachable \<and> commit_fault reachable = None \<and>
   backup binary_storage reachable \<lparr>transactions = [], budgets = [], categories = []\<rparr>
     \<lparr>transactions_table = [transaction_january], budgets_table = [], categories_table = []\<rparr> =
     (Inr \<lparr>status = ''success'', message = ''Backup completed successfully'',
           transactions_backed_up = 0, budgets_backed_up = 0, categories_backed_up = 0\<rparr>,
      \<lparr>transactions_table = [transaction_january], budgets_table = [], categories_table = []\<rparr>)"
proof -
  have b: "backup binary_storage reachable
     \<lparr>transactions = [transaction_january], budgets = [budget_food_first], categories = []\<rparr>
     empty_database =
     (Inr \<lparr>status = ''success'', message = ''Backup completed successfully'',
           transactions_backed_up = 1, budgets_backed_up = 1, categories_backed_up = 0\<rparr>,
      \<lparr>transactions_table = [transaction_january], budgets_table = [budget_food_first],
       categories_table = []\<rparr>)"
    using backup_no_faults [OF no_faults_reachable, of binary_storage
        "\<lparr>transactions = [transaction_january], budgets = [budget_food_first], categories = []\<rparr>"
        "[transaction_january]" "[budget_food_first]" "[]" empty_database]
    by (simp add: store_transaction_january store_budget_food_first empty_database_def
        replace_into_transactions_def replace_into_budgets_def)
  have c: "connects reachable \<and> commit_fault reachable = None"
    by (simp add: connects_reachable) (simp add: reachable_def)
  from backup_reports_lengths [of binary_storage reachable
      "\<lparr>transactions = [transaction_january], budgets = [budget_food_first], categories = []\<rparr>"
      empty_database]
    backup_reports_lengths [of binary_storage reachable _
      "\<lparr>transactions_table = [transaction_january], budgets_table = [], categories_table = []\<rparr>"]
    b c
  show ?thesis by simp
qed

section \<open>The order of a restore\<close>

lemma restore_Inr:
  assumes "restore sto cond db = (Inr response, db')"
  shows "db' = db \<and>
         response = \<lparr>r_transactions = select_transactions sto db, r_budgets = budgets_table db,
                     r_categories = categories_table db\<rparr>"
proof -
  from assms obtain conn where conn: "get_db_connection cond db = Inr (Some conn)"
    by (auto simp: restore_def split: sum.splits option.splits)
  from get_db_connection_Some [OF conn]
  have conn_def: "conn = \<lparr>committed = db, working = db, executed = 0\<rparr>" by simp
  from assms conn have "restore_try sto cond conn = Inr response" and "db' = close conn"
    by (auto simp: restore_def split: sum.splits)
  then show ?thesis
    by (auto simp: restore_try_def query_def conn_def close_def split: option.splits)
qed

lemma restore_no_faults:
  assumes "no_faults cond"
  shows "restore sto cond db =
           (Inr \<lparr>r_transactions = select_transactions sto db, r_budgets = budgets_table db,
                  r_categories = categories_table db\<rparr>, db)"
proof -
  from assms have c: "connects cond" and f: "\<And>n. stmt_fault cond n = None"
    by (simp_all add: no_faults_def)
  show ?thesis
    by (simp add: restore_def get_db_connection_connects [OF c] restore_try_def query_def f
        close_def)
qed

lemma select_transactions_sorted:
  "sorted_wrt (\<lambda>a b. collate sto (t_date b) \<le> collate sto (t_date a)) (select_transactions sto db)"
proof -
  have "sorted (map (\<lambda>r. collate sto (t_date r))
          (sort_key (\<lambda>r. collate sto (t_date r)) (transactions_table db)))"
    by (rule sorted_sort_key)
  then have "sorted_wrt (\<lambda>a b. collate sto (t_date a) \<le> collate sto (t_date b))
          (sort_key (\<lambda>r. collate sto (t_date r)) (transactions_table db))"
    by (simp add: sorted_wrt_map)
  then show ?thesis
    by (simp add: select_transactions_def sorted_wrt_rev)
qed

lemma select_transactions_mset:
  "mset (select_transactions sto db) = mset (transactions_table db)"
  by (simp add: select_transactions_def)

text \<open>
  C6. The transactions that a restore returns are the stored transactions, each once, in
  descending order of the sort key of \<^verbatim>\<open>date\<close>: of two returned transactions, the
  earlier in the list has the later or the same date.
\<close>

theorem restore_orders_by_date_descending:
  assumes "restore sto cond db = (Inr response, db')"
  shows "sorted_wrt (\<lambda>a b. collate sto (t_date b) \<le> collate sto (t_date a))
           (r_transactions response) \<and>
         mset (r_transactions response) = mset (transactions_table db)"
  using restore_Inr [OF assms] select_transactions_sorted [of sto db]
    select_transactions_mset [of sto db]
  by simp

lemma store_transaction_march:
  "store_transaction binary_storage transaction_march = Inr transaction_march"
  by (simp add: store_transaction_def transaction_march_def binary_storage_def varchar_def
      char_length_def decimal_column_def nullable_def text_column_def int_column_def)

lemma backup_january_march:
  "backup binary_storage reachable
     \<lparr>transactions = [transaction_january, transaction_march], budgets = [], categories = []\<rparr>
     empty_database =
     (Inr \<lparr>status = ''success'', message = ''Backup completed successfully'',
           transactions_backed_up = 2, budgets_backed_up = 0, categories_backed_up = 0\<rparr>,
      \<lparr>transactions_table = [transaction_january, transaction_march], budgets_table = [],
       categories_table = []\<rparr>)"
  using backup_no_faults [OF no_faults_reachable, of binary_storage
        "\<lparr>transactions = [transaction_january, transaction_march], budgets = [], categories = []\<rparr>"
        "[transaction_january, transaction_march]" "[]" "[]" empty_database]
  by (simp add: store_transaction_january store_transaction_march empty_database_def
      replace_into_transactions_def same_key_def) (simp add: transaction_january_def transaction_march_def binary_storage_def)

lemma restore_january_march:
  "restore binary_storage reachable
     \<lparr>transactions_table = [transaction_january, transaction_march], budgets_table = [],
       categories_table = []\<rparr> =
     (Inr \<lparr>r_transactions = [transaction_march, transaction_january], r_budgets = [],
            r_categories = []\<rparr>,
      \<lparr>transactions_table = [transaction_january, transaction_march], budgets_table = [],
       categories_table = []\<rparr>)"
  by (simp add: restore_no_faults [OF no_faults_reachable] select_transactions_def)
     (simp add: transaction_january_def transaction_march_def binary_storage_def)

theorem restore_orders_by_date_descending_witness:
  "backup binary_storage reachable
     \<lparr>transactions = [transaction_january, transaction_march], budgets = [], categories = []\<rparr>
     empty_database =
     (Inr \<lparr>status = ''success'', message = ''Backup completed successfully'',
           transactions_backed_up = 2, budgets_backed_up = 0, categories_backed_up = 0\<rparr>,
      \<lparr>transactions_table = [transaction_january, transaction_march], budgets_table = [],
       categories_table = []\<rparr>) \<and>
   restore binary_storage reachable
     \<lparr>transactions_table = [transaction_january, transaction_march], budgets_table = [],
       categories_table = []\<rparr> =
     (Inr \<lparr>r_transactions = [transaction_march, transaction_january], r_budgets = [],
            r_categories = []\<rparr>,
      \<lparr>transactions_table = [transaction_january, transaction_march], budgets_table = [],
       categories_table = []\<rparr>) \<and>
   t_date transaction_march = ''2024-03-15'' \<and> t_date transaction_january = ''2024-01-01'' \<and>
   sorted_wrt (\<lambda>a b. collate binary_storage (t_date b) \<le> collate binary_storage (t_date a))
     [transaction_march, transaction_january]"
  using restore_orders_by_date_descending [OF restore_january_march]
    backup_january_march restore_january_march
  by (simp add: transaction_january_def transaction_march_def)

section \<open>Replacing rows and the unique keys\<close>

subsection \<open>Replacing rows\<close>

lemma replace_all_closed:
  "foldl (\<lambda>table row. replace_into C row table) table rows =
     filter (\<lambda>r. \<forall>x\<in>set rows. \<not> C x r) table @ surviving C rows"
proof (induction rows arbitrary: table)
  case Nil
  then show ?case by simp
next
  case (Cons x xs)
  have "filter (\<lambda>r. \<forall>y\<in>set xs. \<not> C y r) (filter (\<lambda>r. \<not> C x r) table) =
        filter (\<lambda>r. \<forall>y\<in>set (x # xs). \<not> C y r) table"
    by (induction table) auto
  with Cons.IH [of "replace_into C x table"] show ?case
    by (simp add: replace_into_def)
qed

lemma set_surviving: "set (surviving C rows) \<subseteq> set rows"
  by (induction rows) auto

lemma replace_all_idempotent:
  assumes "\<And>x. C x x"
  shows "foldl (\<lambda>table row. replace_into C row table)
           (foldl (\<lambda>table row. replace_into C row table) table rows) rows =
         foldl (\<lambda>table row. replace_into C row table) table rows"
proof -
  have "filter (\<lambda>r. \<forall>x\<in>set rows. \<not> C x r) (surviving C rows) = []"
    using set_surviving [of C rows] assms by (auto simp: filter_empty_conv)
  then show ?thesis
    by (simp add: replace_all_closed)
qed


lemma surviving_member:
  assumes "\<forall>y\<in>set ys. \<not> C y x"
  shows "x \<in> set (surviving C (xs @ x # ys))"
  using assms by (induction xs) auto


lemma distinct_filter_key:
  "distinct (map key xs) \<Longrightarrow> x \<in> set xs \<Longrightarrow> filter (\<lambda>r. key r = key x) xs = [x]"
proof (induction xs)
  case Nil
  then show ?case by simp
next
  case (Cons a xs)
  show ?case
  proof (cases "a = x")
    case True
    with Cons.prems have "\<forall>r\<in>set xs. key r \<noteq> key x" by (auto simp: image_iff)
    then have "filter (\<lambda>r. key r = key x) xs = []" by (simp add: filter_empty_conv)
    with True show ?thesis by simp
  next
    case False
    with Cons.prems have x: "x \<in> set xs" and "key a \<noteq> key x" by (auto simp: image_iff)
    with Cons show ?thesis by simp
  qed
qed

lemma distinct_replace_into:
  assumes "distinct (map key table)" and "\<And>r. key r = key row \<Longrightarrow> C row r"
  shows "distinct (map key (replace_into C row table))"
proof -
  have "key row \<notin> key ` set (filter (\<lambda>r. \<not> C row r) table)"
    using assms(2) by auto
  with assms(1) show ?thesis
    by (simp add: replace_into_def distinct_map_filter)
qed

lemma distinct_replace_all:
  assumes "distinct (map key table)" and "\<And>r row. key r = key row \<Longrightarrow> C row r"
  shows "distinct (map key (foldl (\<lambda>table row. replace_into C row table) table rows))"
  using assms(1)
proof (induction rows arbitrary: table)
  case Nil
  then show ?case by simp
next
  case (Cons x xs)
  from distinct_replace_into [of key table x C, OF Cons.prems assms(2)]
  have "distinct (map key (replace_into C x table))" by blast
  from Cons.IH [OF this] show ?case by simp
qed

subsection \<open>The rows of a list of records\<close>

lemma store_all_append_case:
  "store_all store (xs @ ys) =
     (case store_all store xs of
        Inl e \<Rightarrow> Inl e
      | Inr r1 \<Rightarrow> (case store_all store ys of Inl e \<Rightarrow> Inl e | Inr r2 \<Rightarrow> Inr (r1 @ r2)))"
  by (induction xs) (simp_all split: sum.splits)

lemma store_all_append:
  "store_all store (xs @ ys) = Inr rows \<longleftrightarrow>
     (\<exists>r1 r2. store_all store xs = Inr r1 \<and> store_all store ys = Inr r2 \<and> rows = r1 @ r2)"
  by (auto simp: store_all_append_case split: sum.splits)

lemma store_all_rows:
  "store_all store xs = Inr rows \<Longrightarrow> r \<in> set rows \<Longrightarrow> \<exists>x\<in>set xs. store x = Inr r"
  by (induction xs arbitrary: rows) (auto split: sum.splits)


lemma store_transaction_Inr:
  "store_transaction sto tr = Inr row \<Longrightarrow>
   \<exists>d. decimal_10_2 sto (t_amount tr) = Some d \<and> row = tr\<lparr>t_amount := d\<rparr>"
  by (auto simp: store_transaction_def split: option.splits)

lemma store_budget_Inr:
  "store_budget sto budget = Inr row \<Longrightarrow>
   \<exists>d. decimal_10_2 sto (b_monthly_limit budget) = Some d \<and> row = budget\<lparr>b_monthly_limit := d\<rparr>"
  by (auto simp: store_budget_def split: option.splits)

lemma store_category_Inr: "store_category cat = Inr row \<Longrightarrow> row = cat"
  by (auto simp: store_category_def split: option.splits)

subsection \<open>The two tables that are replaced into\<close>

lemma replace_into_transactions_eq:
  "replace_into_transactions sto = replace_into (\<lambda>row r. same_key sto (t_id r) (t_id row))"
  by (intro ext) (simp add: replace_into_transactions_def replace_into_def)

lemma replace_into_budgets_eq:
  "replace_into_budgets sto = replace_into (budget_conflict sto)"
  by (intro ext) (simp add: replace_into_budgets_def replace_into_def)

lemma budget_conflict_refl: "budget_conflict sto x x"
  by (simp add: budget_conflict_def same_key_def)

subsection \<open>Positions in the categories table\<close>

lemma index_where_le: "index_where P xs \<le> length xs"
  by (induction xs) auto

lemma index_where_less_iff: "index_where P xs < length xs \<longleftrightarrow> (\<exists>x\<in>set xs. P x)"
  by (induction xs) auto

lemma index_where_nth: "index_where P xs < length xs \<Longrightarrow> P (xs ! index_where P xs)"
  by (induction xs) auto

lemma map_key_set_icon:
  assumes "\<And>r v. key (r\<lparr>c_icon := v\<rparr>) = key r" and "i < length table"
  shows "map key (table[i := (table ! i)\<lparr>c_icon := v\<rparr>]) = map key table"
  using assms by (simp add: map_update list_update_same_conv)

lemma insert_into_categories_keys:
  assumes "\<And>r v. key (r\<lparr>c_icon := v\<rparr>) = key r"
  shows "map key (insert_into_categories sto row table) = map key table \<or>
         (insert_into_categories sto row table = table @ [row] \<and>
          (\<forall>r\<in>set table. \<not> same_key sto (c_id r) (c_id row) \<and>
                          \<not> same_key sto (c_name r) (c_name row)))"
  unfolding insert_into_categories_def Let_def
  using index_where_le [of "\<lambda>r. same_key sto (c_id r) (c_id row)" table]
    index_where_le [of "\<lambda>r. same_key sto (c_name r) (c_name row)" table]
    index_where_less_iff [of "\<lambda>r. same_key sto (c_id r) (c_id row)" table]
    index_where_less_iff [of "\<lambda>r. same_key sto (c_name r) (c_name row)" table]
  by (auto simp: map_key_set_icon [of key, OF assms])

lemma insert_into_categories_distinct:
  assumes "distinct (map (\<lambda>r. collate sto (c_id r)) table)"
    and "distinct (map (\<lambda>r. collate sto (c_name r)) table)"
  shows "distinct (map (\<lambda>r. collate sto (c_id r)) (insert_into_categories sto row table)) \<and>
         distinct (map (\<lambda>r. collate sto (c_name r)) (insert_into_categories sto row table))"
  using insert_into_categories_keys [of "\<lambda>r. collate sto (c_id r)" sto row table]
    insert_into_categories_keys [of "\<lambda>r. collate sto (c_name r)" sto row table] assms
  by (auto simp: same_key_def) blast+

lemma insert_all_categories_distinct:
  assumes "distinct (map (\<lambda>r. collate sto (c_id r)) table)"
    and "distinct (map (\<lambda>r. collate sto (c_name r)) table)"
  shows "distinct (map (\<lambda>r. collate sto (c_id r))
           (foldl (\<lambda>table row. insert_into_categories sto row table) table rows)) \<and>
         distinct (map (\<lambda>r. collate sto (c_name r))
           (foldl (\<lambda>table row. insert_into_categories sto row table) table rows))"
  using assms
proof (induction rows arbitrary: table)
  case Nil
  then show ?case by simp
next
  case (Cons x xs)
  from insert_into_categories_distinct [OF Cons.prems, of x]
  have "distinct (map (\<lambda>r. collate sto (c_id r)) (insert_into_categories sto x table))"
    and "distinct (map (\<lambda>r. collate sto (c_name r)) (insert_into_categories sto x table))"
    by simp_all
  from Cons.IH [OF this] show ?case by simp
qed

subsection \<open>The key constraints hold after every backup\<close>

lemma written_unique_keys:
  assumes "unique_keys sto db" and "written sto data db db'"
  shows "unique_keys sto db'"
proof -
  from assms(2) obtain ts bs cs where
    t: "transactions_table db' =
          foldl (\<lambda>table row. replace_into_transactions sto row table) (transactions_table db) ts" and
    b: "budgets_table db' =
          foldl (\<lambda>table row. replace_into_budgets sto row table) (budgets_table db) bs" and
    c: "categories_table db' =
          foldl (\<lambda>table row. insert_into_categories sto row table) (categories_table db) cs"
    unfolding written_def by blast
  from assms(1) have
    d1: "distinct (map (\<lambda>r. collate sto (t_id r)) (transactions_table db))" and
    d2: "distinct (map (\<lambda>r. collate sto (b_id r)) (budgets_table db))" and
    d3: "distinct (map (\<lambda>r. collate sto (b_category r)) (budgets_table db))" and
    d4: "distinct (map (\<lambda>r. collate sto (c_id r)) (categories_table db))" and
    d5: "distinct (map (\<lambda>r. collate sto (c_name r)) (categories_table db))"
    by (simp_all add: unique_keys_def)
  have 1: "distinct (map (\<lambda>r. collate sto (t_id r)) (transactions_table db'))"
    unfolding t replace_into_transactions_eq
    by (rule distinct_replace_all [OF d1]) (simp add: same_key_def)
  have 2: "distinct (map (\<lambda>r. collate sto (b_id r)) (budgets_table db'))"
    unfolding b replace_into_budgets_eq
    by (rule distinct_replace_all [OF d2]) (simp add: budget_conflict_def same_key_def)
  have 3: "distinct (map (\<lambda>r. collate sto (b_category r)) (budgets_table db'))"
    unfolding b replace_into_budgets_eq
    by (rule distinct_replace_all [OF d3]) (simp add: budget_conflict_def same_key_def)
  from insert_all_categories_distinct [OF d4 d5, of cs] 1 2 3 show ?thesis
    by (simp add: unique_keys_def c)
qed

lemma unique_keys_empty: "unique_keys sto empty_database"
  by (simp add: unique_keys_def empty_database_def)

subsection \<open>A budget for a category that has one\<close>

lemma budget_stored_last:
  assumes rows: "store_all (store_budget sto) (before @ [budget] @ after) = Inr rows"
    and row: "store_budget sto budget = Inr row"
    and later: "\<forall>later\<in>set after. \<not> same_key sto (b_id later) (b_id budget) \<and>
                  \<not> same_key sto (b_category later) (b_category budget)"
  shows "row \<in> set (foldl (\<lambda>table row. replace_into_budgets sto row table) table rows)"
proof -
  from rows row obtain r1 r2 where r1: "store_all (store_budget sto) before = Inr r1"
    and r2: "store_all (store_budget sto) after = Inr r2" and split: "rows = r1 @ row # r2"
    by (auto simp: store_all_append split: sum.splits)
  have "\<not> budget_conflict sto y row" if "y \<in> set r2" for y
  proof -
    from store_all_rows [OF r2 that] obtain x where x: "x \<in> set after"
      and y: "store_budget sto x = Inr y" by blast
    from store_budget_Inr [OF y] store_budget_Inr [OF row] later x show ?thesis
      by (auto simp: budget_conflict_def same_key_def)
  qed
  then have "row \<in> set (surviving (budget_conflict sto) (r1 @ row # r2))"
    by (intro surviving_member) blast
  then show ?thesis
    by (simp add: replace_into_budgets_eq replace_all_closed split)
qed

lemma budget_replaced:
  assumes keys: "unique_keys sto db" and cond: "no_faults cond" and data: "accepts sto data"
    and stored: "stored \<in> set (budgets_table db)"
    and budgets: "budgets data = before @ [budget] @ after"
    and row: "store_budget sto budget = Inr row"
    and category: "same_key sto (b_category budget) (b_category stored)"
    and other_id: "\<not> same_key sto (b_id budget) (b_id stored)"
    and later: "\<forall>later\<in>set after. \<not> same_key sto (b_id later) (b_id budget) \<and>
                  \<not> same_key sto (b_category later) (b_category budget)"
  shows "\<exists>response db'. backup sto cond data db = (Inr response, db') \<and>
           filter (\<lambda>r. same_key sto (b_category r) (b_category budget)) (budgets_table db') = [row] \<and>
           row = budget\<lparr>b_monthly_limit := b_monthly_limit row\<rparr> \<and>
           stored \<notin> set (budgets_table db')"
proof -
  from data obtain ts bs cs where
    ts: "store_all (store_transaction sto) (transactions data) = Inr ts" and
    bs: "store_all (store_budget sto) (budgets data) = Inr bs" and
    cs: "store_all store_category (categories data) = Inr cs"
    unfolding accepts_def by blast
  define db' where "db' =
     \<lparr>transactions_table =
        foldl (\<lambda>table row. replace_into_transactions sto row table) (transactions_table db) ts,
      budgets_table =
        foldl (\<lambda>table row. replace_into_budgets sto row table) (budgets_table db) bs,
      categories_table =
        foldl (\<lambda>table row. insert_into_categories sto row table) (categories_table db) cs\<rparr>"
  from backup_no_faults [OF cond ts bs cs, of db]
  obtain response where b: "backup sto cond data db = (Inr response, db')"
    by (simp add: db'_def)
  from backup_Inr [OF b] have "written sto data db db'" by simp
  from written_unique_keys [OF keys this]
  have d: "distinct (map (\<lambda>r. collate sto (b_category r)) (budgets_table db'))"
    by (simp add: unique_keys_def)
  from budget_stored_last [OF bs [unfolded budgets] row later, of "budgets_table db"]
  have member: "row \<in> set (budgets_table db')" by (simp add: db'_def)
  from store_budget_Inr [OF row] have fields: "row = budget\<lparr>b_monthly_limit := b_monthly_limit row\<rparr>"
    and cat: "b_category row = b_category budget" and ident: "b_id row = b_id budget"
    by auto
  from distinct_filter_key [OF d member]
  have only: "filter (\<lambda>r. same_key sto (b_category r) (b_category budget)) (budgets_table db') = [row]"
    by (simp add: same_key_def cat)
  have "stored \<notin> set (budgets_table db')"
  proof
    assume "stored \<in> set (budgets_table db')"
    with category have "stored \<in> set (filter (\<lambda>r. same_key sto (b_category r) (b_category budget))
      (budgets_table db'))" by (simp add: same_key_def)
    with only have "stored = row" by simp
    with other_id ident show False by (simp add: same_key_def)
  qed
  with b only fields show ?thesis by blast
qed

section \<open>Two budgets of one category\<close>

text \<open>
  C9 (as amended). When a backup that meets no fault and whose records the server accepts
  contains a budget whose category is that of a stored budget with another id, and no
  later budget of the same call has the id or the category of the submitted one, the
  backup succeeds; afterwards exactly one budget row has that category, the row of the
  submitted budget (its fields as submitted, the limit as the column holds it), and the
  row stored before is gone.
\<close>

theorem backup_replaces_budget_of_category:
  assumes "unique_keys sto db" and "no_faults cond" and "accepts sto data"
    and "stored \<in> set (budgets_table db)"
    and "budgets data = before @ [budget] @ after"
    and "store_budget sto budget = Inr row"
    and "same_key sto (b_category budget) (b_category stored)"
    and "\<not> same_key sto (b_id budget) (b_id stored)"
    and "\<forall>later\<in>set after. \<not> same_key sto (b_id later) (b_id budget) \<and>
           \<not> same_key sto (b_category later) (b_category budget)"
  shows "\<exists>response db'. backup sto cond data db = (Inr response, db') \<and>
           filter (\<lambda>r. same_key sto (b_category r) (b_category budget)) (budgets_table db') = [row] \<and>
           row = budget\<lparr>b_monthly_limit := b_monthly_limit row\<rparr> \<and>
           stored \<notin> set (budgets_table db')"
  using assms by (rule budget_replaced)

lemma store_budget_food_second:
  "store_budget binary_storage budget_food_second = Inr budget_food_second"
  by (simp add: store_budget_def budget_food_second_def binary_storage_def varchar_def
      char_length_def decimal_column_def)

lemma store_budget_third: "store_budget binary_storage budget_third = Inr budget_third"
  by (simp add: store_budget_def budget_third_def binary_storage_def varchar_def
      char_length_def decimal_column_def)

lemma backup_budget_food_first:
  "backup binary_storage reachable
     \<lparr>transactions = [], budgets = [budget_food_first], categories = []\<rparr> empty_database =
     (Inr \<lparr>status = ''success'', message = ''Backup completed successfully'',
           transactions_backed_up = 0, budgets_backed_up = 1, categories_backed_up = 0\<rparr>,
      \<lparr>transactions_table = [], budgets_table = [budget_food_first], categories_table = []\<rparr>)"
  using backup_no_faults [OF no_faults_reachable, of binary_storage
      "\<lparr>transactions = [], budgets = [budget_food_first], categories = []\<rparr>"
      "[]" "[budget_food_first]" "[]" empty_database]
  by (simp add: store_budget_food_first empty_database_def replace_into_budgets_def)

lemma backup_budget_food_second:
  "backup binary_storage reachable
     \<lparr>transactions = [], budgets = [budget_food_second], categories = []\<rparr>
     \<lparr>transactions_table = [], budgets_table = [budget_food_first], categories_table = []\<rparr> =
     (Inr \<lparr>status = ''success'', message = ''Backup completed successfully'',
           transactions_backed_up = 0, budgets_backed_up = 1, categories_backed_up = 0\<rparr>,
      \<lparr>transactions_table = [], budgets_table = [budget_food_second], categories_table = []\<rparr>)"
  using backup_no_faults [OF no_faults_reachable, of binary_storage
      "\<lparr>transactions = [], budgets = [budget_food_second], categories = []\<rparr>"
      "[]" "[budget_food_second]" "[]"
      "\<lparr>transactions_table = [], budgets_table = [budget_food_first], categories_table = []\<rparr>"]
  by (simp add: store_budget_food_second replace_into_budgets_def budget_conflict_def same_key_def)
     (simp add: budget_food_first_def budget_food_second_def)

lemma unique_keys_budget_food_first:
  "unique_keys binary_storage
     \<lparr>transactions_table = [], budgets_table = [budget_food_first], categories_table = []\<rparr>"
  by (simp add: unique_keys_def)

lemma accepts_budget_food_second:
  "accepts binary_storage \<lparr>transactions = [], budgets = [budget_food_second], categories = []\<rparr>"
  by (simp add: accepts_def store_budget_food_second)

theorem backup_replaces_budget_of_category_witness:
  "\<exists>response db'.
     backup binary_storage reachable
       \<lparr>transactions = [], budgets = [budget_food_second], categories = []\<rparr>
       \<lparr>transactions_table = [], budgets_table = [budget_food_first], categories_table = []\<rparr> =
       (Inr response, db') \<and>
     filter (\<lambda>r. same_key binary_storage (b_category r) (b_category budget_food_second))
       (budgets_table db') = [budget_food_second] \<and>
     budget_food_second =
       budget_food_second\<lparr>b_monthly_limit := b_monthly_limit budget_food_second\<rparr> \<and>
     budget_food_first \<notin> set (budgets_table db')"
proof -
  have 1: "budget_food_first \<in> set (budgets_table
     \<lparr>transactions_table = [], budgets_table = [budget_food_first], categories_table = []\<rparr>)"
    by simp
  have 2: "budgets \<lparr>transactions = [], budgets = [budget_food_second], categories = []\<rparr> =
     [] @ [budget_food_second] @ []"
    by simp
  have 3: "same_key binary_storage (b_category budget_food_second) (b_category budget_food_first)"
    by (simp add: same_key_def budget_food_first_def budget_food_second_def)
  have 4: "\<not> same_key binary_storage (b_id budget_food_second) (b_id budget_food_first)"
    by (simp add: same_key_def budget_food_first_def budget_food_second_def binary_storage_def)
  have 5: "\<forall>later\<in>set []. \<not> same_key binary_storage (b_id later) (b_id budget_food_second) \<and>
           \<not> same_key binary_storage (b_category later) (b_category budget_food_second)"
    by simp
  show ?thesis
    by (rule backup_replaces_budget_of_category [OF unique_keys_budget_food_first
          no_faults_reachable accepts_budget_food_second 1 2 store_budget_food_second 3 4 5])
qed

theorem budget_overridden_in_same_backup_counterexample:
  "budget_food_first \<in> set (budgets_table
     \<lparr>transactions_table = [], budgets_table = [budget_food_first], categories_table = []\<rparr>) \<and>
   b_category budget_food_second = b_category budget_food_first \<and>
   b_id budget_food_second \<noteq> b_id budget_food_first \<and>
   budget_food_second \<in> set [budget_food_second, budget_third] \<and>
   backup binary_storage reachable
     \<lparr>transactions = [], budgets = [budget_food_second, budget_third], categories = []\<rparr>
     \<lparr>transactions_table = [], budgets_table = [budget_food_first], categories_table = []\<rparr> =
     (Inr \<lparr>status = ''success'', message = ''Backup completed successfully'',
           transactions_backed_up = 0, budgets_backed_up = 2, categories_backed_up = 0\<rparr>,
      \<lparr>transactions_table = [], budgets_table = [budget_third], categories_table = []\<rparr>) \<and>
   budget_food_second \<notin> set [budget_third]"
  using backup_no_faults [OF no_faults_reachable, of binary_storage
      "\<lparr>transactions = [], budgets = [budget_food_second, budget_third], categories = []\<rparr>"
      "[]" "[budget_food_second, budget_third]" "[]"
      "\<lparr>transactions_table = [], budgets_table = [budget_food_first], categories_table = []\<rparr>"]
  by (simp add: store_budget_food_second store_budget_third replace_into_budgets_def
      budget_conflict_def same_key_def)
     (simp add: budget_food_first_def budget_food_second_def budget_third_def binary_storage_def)

text \<open>
  C1 (as amended). Of two successive backups, let the first succeed and store a budget,
  and let the second meet no fault, have all its records accepted and contain a budget
  with another id and the same category (in both calls no later budget of the call has
  the id or the category of the one in question). Then the second backup succeeds as
  well: it stores its budget in place of the first one, so the database is not the one
  the first call left.
\<close>

theorem second_budget_of_category_replaces_first:
  assumes "unique_keys sto db"
    and "backup sto cond1 data1 db = (Inr response1, db1)"
    and "budgets data1 = before1 @ [first] @ after1"
    and "store_budget sto first = Inr row1"
    and "\<forall>later\<in>set after1. \<not> same_key sto (b_id later) (b_id first) \<and>
           \<not> same_key sto (b_category later) (b_category first)"
    and "no_faults cond2" and "accepts sto data2"
    and "budgets data2 = before2 @ [second] @ after2"
    and "store_budget sto second = Inr row2"
    and "same_key sto (b_category second) (b_category first)"
    and "\<not> same_key sto (b_id second) (b_id first)"
    and "\<forall>later\<in>set after2. \<not> same_key sto (b_id later) (b_id second) \<and>
           \<not> same_key sto (b_category later) (b_category second)"
  shows "row1 \<in> set (budgets_table db1) \<and>
         (\<exists>response2 db2. backup sto cond2 data2 db1 = (Inr response2, db2) \<and>
            row2 \<in> set (budgets_table db2) \<and> row1 \<notin> set (budgets_table db2) \<and> db2 \<noteq> db1)"
proof -
  from backup_Inr [OF assms(2)] have w: "written sto data1 db db1" by simp
  from written_unique_keys [OF assms(1) w] have keys: "unique_keys sto db1" .
  from w obtain bs where bs: "store_all (store_budget sto) (budgets data1) = Inr bs"
    and table: "budgets_table db1 =
      foldl (\<lambda>table row. replace_into_budgets sto row table) (budgets_table db) bs"
    unfolding written_def by blast
  from budget_stored_last [OF bs [unfolded assms(3)] assms(4) assms(5), of "budgets_table db"]
  have member: "row1 \<in> set (budgets_table db1)" by (simp add: table)
  from store_budget_Inr [OF assms(4)] have same: "b_category row1 = b_category first"
    "b_id row1 = b_id first" by auto
  from assms(10) have cat: "same_key sto (b_category second) (b_category row1)"
    by (simp add: same_key_def same)
  from assms(11) have ident: "\<not> same_key sto (b_id second) (b_id row1)"
    by (simp add: same_key_def same)
  from budget_replaced [OF keys assms(6) assms(7) member assms(8) assms(9) cat ident assms(12)]
  obtain response2 db2 where b: "backup sto cond2 data2 db1 = (Inr response2, db2)"
    and only: "filter (\<lambda>r. same_key sto (b_category r) (b_category second)) (budgets_table db2) = [row2]"
    and gone: "row1 \<notin> set (budgets_table db2)"
    by blast
  from only have "row2 \<in> set (filter (\<lambda>r. same_key sto (b_category r) (b_category second))
    (budgets_table db2))" by simp
  then have "row2 \<in> set (budgets_table db2)" by simp
  moreover from member gone have "db2 \<noteq> db1" by auto
  ultimately show ?thesis using member b gone by blast
qed

theorem second_budget_of_category_replaces_first_witness:
  "budget_food_first \<in> set (budgets_table
       \<lparr>transactions_table = [], budgets_table = [budget_food_first], categories_table = []\<rparr>) \<and>
   (\<exists>response2 db2.
      backup binary_storage reachable
        \<lparr>transactions = [], budgets = [budget_food_second], categories = []\<rparr>
        \<lparr>transactions_table = [], budgets_table = [budget_food_first], categories_table = []\<rparr> =
        (Inr response2, db2) \<and>
      budget_food_second \<in> set (budgets_table db2) \<and>
      budget_food_first \<notin> set (budgets_table db2) \<and>
      db2 \<noteq> \<lparr>transactions_table = [], budgets_table = [budget_food_first],
               categories_table = []\<rparr>)"
proof -
  have 3: "budgets \<lparr>transactions = [], budgets = [budget_food_first], categories = []\<rparr> =
     [] @ [budget_food_first] @ []"
    by simp
  have 5: "\<forall>later\<in>set []. \<not> same_key binary_storage (b_id later) (b_id budget_food_first) \<and>
           \<not> same_key binary_storage (b_category later) (b_category budget_food_first)"
    by simp
  have 8: "budgets \<lparr>transactions = [], budgets = [budget_food_second], categories = []\<rparr> =
     [] @ [budget_food_second] @ []"
    by simp
  have 10: "same_key binary_storage (b_category budget_food_second) (b_category budget_food_first)"
    by (simp add: same_key_def budget_food_first_def budget_food_second_def)
  have 11: "\<not> same_key binary_storage (b_id budget_food_second) (b_id budget_food_first)"
    by (simp add: same_key_def budget_food_first_def budget_food_second_def binary_storage_def)
  have 12: "\<forall>later\<in>set []. \<not> same_key binary_storage (b_id later) (b_id budget_food_second) \<and>
           \<not> same_key binary_storage (b_category later) (b_category budget_food_second)"
    by simp
  show ?thesis
    by (rule second_budget_of_category_replaces_first [OF unique_keys_empty
          backup_budget_food_first 3 store_budget_food_first 5 no_faults_reachable
          accepts_budget_food_second 8 store_budget_food_second 10 11 12])
qed

theorem second_budget_of_category_counterexample:
  "b_category budget_food_second = b_category budget_food_first \<and>
   b_id budget_food_second \<noteq> b_id budget_food_first \<and>
   backup binary_storage reachable
     \<lparr>transactions = [], budgets = [budget_food_first], categories = []\<rparr> empty_database =
     (Inr \<lparr>status = ''success'', message = ''Backup completed successfully'',
           transactions_backed_up = 0, budgets_backed_up = 1, categories_backed_up = 0\<rparr>,
      \<lparr>transactions_table = [], budgets_table = [budget_food_first], categories_table = []\<rparr>) \<and>
   backup binary_storage reachable
     \<lparr>transactions = [], budgets = [budget_food_second], categories = []\<rparr>
     \<lparr>transactions_table = [], budgets_table = [budget_food_first], categories_table = []\<rparr> =
     (Inr \<lparr>status = ''success'', message = ''Backup completed successfully'',
           transactions_backed_up = 0, budgets_backed_up = 1, categories_backed_up = 0\<rparr>,
      \<lparr>transactions_table = [], budgets_table = [budget_food_second], categories_table = []\<rparr>) \<and>
   \<lparr>transactions_table = [], budgets_table = [budget_food_second],
     categories_table = []\<rparr> \<noteq>
   \<lparr>transactions_table = [], budgets_table = [budget_food_first],
     categories_table = ([] :: Category list)\<rparr>"
  using backup_budget_food_first backup_budget_food_second
  by (simp add: budget_food_first_def budget_food_second_def)

section \<open>Inserting categories\<close>

subsection \<open>The row that an insert into the categories meets\<close>

lemma insert_into_categories_target:
  "insert_into_categories sto row table =
     (if target sto row table < length table
      then table[target sto row table := (table ! target sto row table)\<lparr>c_icon := c_icon row\<rparr>]
      else table @ [row])"
  by (simp add: insert_into_categories_def target_def Let_def)

lemma target_le: "target sto row table \<le> length table"
  by (simp add: target_def Let_def index_where_le)

lemma target_hit:
  assumes "target sto row table < length table"
  shows "same_key sto (c_id (table ! target sto row table)) (c_id row) \<or>
         same_key sto (c_name (table ! target sto row table)) (c_name row)"
  using assms index_where_nth [of "\<lambda>r. same_key sto (c_id r) (c_id row)" table]
    index_where_nth [of "\<lambda>r. same_key sto (c_name r) (c_name row)" table]
  by (auto simp: target_def Let_def split: if_splits)

lemma target_less_iff:
  "target sto row table < length table \<longleftrightarrow>
     (\<exists>r\<in>set table. same_key sto (c_id r) (c_id row) \<or> same_key sto (c_name r) (c_name row))"
  using index_where_less_iff [of "\<lambda>r. same_key sto (c_id r) (c_id row)" table]
    index_where_less_iff [of "\<lambda>r. same_key sto (c_name r) (c_name row)" table]
  by (auto simp: target_def Let_def)

lemma insert_at_target:
  assumes "target sto row table = k" and "k < length table"
  shows "insert_into_categories sto row table ! k = (table ! k)\<lparr>c_icon := c_icon row\<rparr>"
  using assms by (simp add: insert_into_categories_target)

lemma length_insert_into_categories:
  "length (insert_into_categories sto row table) =
     (if target sto row table < length table then length table else Suc (length table))"
  by (simp add: insert_into_categories_target)

lemma keeps_own_icon: "\<exists>v. (r :: Category) = r\<lparr>c_icon := v\<rparr>"
  by (rule exI [of _ "c_icon r"]) simp

lemma insert_keeps_frame:
  assumes "k < length table"
  shows "k < length (insert_into_categories sto row table) \<and>
         (\<exists>v. insert_into_categories sto row table ! k = (table ! k)\<lparr>c_icon := v\<rparr>)"
proof (cases "target sto row table < length table")
  case True
  show ?thesis
  proof (cases "target sto row table = k")
    case True
    with assms show ?thesis by (auto simp: insert_into_categories_target)
  next
    case False
    with True assms keeps_own_icon [of "table ! k"] show ?thesis
      by (auto simp: insert_into_categories_target)
  qed
next
  case False
  with assms keeps_own_icon [of "table ! k"] show ?thesis
    by (auto simp: insert_into_categories_target nth_append)
qed

lemma insert_all_keeps_frame:
  assumes "k < length table"
  shows "k < length (foldl (\<lambda>table row. insert_into_categories sto row table) table rows) \<and>
         (\<exists>v. foldl (\<lambda>table row. insert_into_categories sto row table) table rows ! k =
               (table ! k)\<lparr>c_icon := v\<rparr>)"
  using assms
proof (induction rows arbitrary: table)
  case Nil
  with keeps_own_icon [of "table ! k"] show ?case by auto
next
  case (Cons x xs)
  from insert_keeps_frame [OF Cons.prems, of sto x]
  obtain v where k: "k < length (insert_into_categories sto x table)"
    and v: "insert_into_categories sto x table ! k = (table ! k)\<lparr>c_icon := v\<rparr>" by blast
  from Cons.IH [OF k] v show ?case by auto
qed

lemma insert_keeps_other:
  assumes "k < length table"
    and "\<not> same_key sto (c_id (table ! k)) (c_id row)"
    and "\<not> same_key sto (c_name (table ! k)) (c_name row)"
  shows "insert_into_categories sto row table ! k = table ! k"
proof (cases "target sto row table < length table")
  case True
  from target_hit [OF True] assms have "target sto row table \<noteq> k" by auto
  with True show ?thesis by (simp add: insert_into_categories_target)
next
  case False
  with assms show ?thesis by (simp add: insert_into_categories_target nth_append)
qed

lemma insert_all_keeps_other:
  assumes "k < length table"
    and "\<forall>row\<in>set rows. \<not> same_key sto (c_id (table ! k)) (c_id row) \<and>
            \<not> same_key sto (c_name (table ! k)) (c_name row)"
  shows "foldl (\<lambda>table row. insert_into_categories sto row table) table rows ! k = table ! k"
  using assms
proof (induction rows arbitrary: table)
  case Nil
  then show ?case by simp
next
  case (Cons x xs)
  from Cons.prems have same: "insert_into_categories sto x table ! k = table ! k"
    by (intro insert_keeps_other) auto
  from insert_keeps_frame [OF Cons.prems(1), of sto x]
  have k: "k < length (insert_into_categories sto x table)" by simp
  from Cons.IH [OF k] Cons.prems(2) same show ?case by simp
qed

lemma length_insert_all:
  "length (foldl (\<lambda>table row. insert_into_categories sto row table) table rows) \<le>
     length table + length rows"
proof (induction rows arbitrary: table)
  case Nil
  then show ?case by simp
next
  case (Cons x xs)
  from Cons.IH [of "insert_into_categories sto x table"]
    length_insert_into_categories [of sto x table]
  show ?case by (auto split: if_splits)
qed

lemma insert_origin:
  assumes "x \<in> set (insert_into_categories sto row table)"
  shows "x = row \<or> (\<exists>y\<in>set table. c_id x = c_id y \<and> c_name x = c_name y)"
proof (cases "target sto row table < length table")
  case True
  with assms have "x \<in> insert ((table ! target sto row table)\<lparr>c_icon := c_icon row\<rparr>) (set table)"
    using set_update_subset_insert [of table]
    by (auto simp: insert_into_categories_target)
  with True show ?thesis
    using nth_mem [OF True] by auto
next
  case False
  with assms show ?thesis by (auto simp: insert_into_categories_target)
qed

lemma insert_all_origin:
  assumes "x \<in> set (foldl (\<lambda>table row. insert_into_categories sto row table) table rows)"
  shows "\<exists>y\<in>set table \<union> set rows. c_id x = c_id y \<and> c_name x = c_name y"
  using assms
proof (induction rows arbitrary: table)
  case Nil
  then show ?case by auto
next
  case (Cons r rs)
  from Cons.IH [of "insert_into_categories sto r table"] Cons.prems
  obtain y where y: "y \<in> set (insert_into_categories sto r table) \<union> set rs"
    and same: "c_id x = c_id y" "c_name x = c_name y" by auto
  from y insert_origin [of y sto r table] same show ?case by auto
qed

lemma index_where_unique:
  assumes "distinct (map key xs)" and "k < length xs"
  shows "index_where (\<lambda>r. key r = key (xs ! k)) xs = k"
  using assms
proof (induction xs arbitrary: k)
  case Nil
  then show ?case by simp
next
  case (Cons a xs)
  show ?case
  proof (cases k)
    case 0
    then show ?thesis by simp
  next
    case (Suc j)
    with Cons.prems have j: "j < length xs" and "key a \<noteq> key (xs ! j)"
      by (auto simp: image_iff)
    with Cons.IH [of j] Cons.prems Suc show ?thesis by simp
  qed
qed

lemma same_position:
  assumes "distinct (map key xs)" and "i < length xs" and "k < length xs"
    and "key (xs ! i) = key (xs ! k)"
  shows "i = k"
  using assms nth_eq_iff_index_eq [of "map key xs" i k] by simp

subsection \<open>The categories after a backup\<close>

lemma store_all_category: "store_all store_category cats = Inr rows \<Longrightarrow> rows = cats"
proof (induction cats arbitrary: rows)
  case Nil
  then show ?case by simp
next
  case (Cons c cs)
  then show ?case
    by (auto split: sum.splits dest: store_category_Inr)
qed

lemma target_by_id:
  assumes "distinct (map (\<lambda>r. collate sto (c_id r)) table)" and "k < length table"
    and "same_key sto (c_id (table ! k)) (c_id cat)"
  shows "target sto cat table = k"
proof -
  from assms(3) have "index_where (\<lambda>r. same_key sto (c_id r) (c_id cat)) table =
      index_where (\<lambda>r. collate sto (c_id r) = collate sto (c_id (table ! k))) table"
    by (simp add: same_key_def)
  with index_where_unique [OF assms(1) assms(2)] assms(2) show ?thesis
    by (simp add: target_def)
qed

lemma target_by_name:
  assumes "distinct (map (\<lambda>r. collate sto (c_name r)) table)" and "k < length table"
    and "same_key sto (c_name (table ! k)) (c_name cat)"
    and "\<forall>x\<in>set table. same_key sto (c_id x) (c_id cat) \<longrightarrow> same_key sto (c_name x) (c_name cat)"
  shows "target sto cat table = k"
proof (cases "index_where (\<lambda>r. same_key sto (c_id r) (c_id cat)) table < length table")
  case True
  let ?i = "index_where (\<lambda>r. same_key sto (c_id r) (c_id cat)) table"
  from index_where_nth [OF True] have "same_key sto (c_id (table ! ?i)) (c_id cat)" .
  with assms(4) True have "same_key sto (c_name (table ! ?i)) (c_name cat)" by simp
  with assms(3) have "collate sto (c_name (table ! ?i)) = collate sto (c_name (table ! k))"
    by (simp add: same_key_def)
  from same_position [OF assms(1) True assms(2) this] True show ?thesis
    by (simp add: target_def)
next
  case False
  from assms(3) have "index_where (\<lambda>r. same_key sto (c_name r) (c_name cat)) table =
      index_where (\<lambda>r. collate sto (c_name r) = collate sto (c_name (table ! k))) table"
    by (simp add: same_key_def)
  with index_where_unique [OF assms(1) assms(2)] False show ?thesis
    by (simp add: target_def)
qed

lemma category_icon_set:
  assumes k: "k < length table"
    and hit: "target sto cat (foldl (\<lambda>table row. insert_into_categories sto row table) table before) = k"
    and later: "\<forall>d\<in>set after. \<not> same_key sto (c_id (table ! k)) (c_id d) \<and>
                  \<not> same_key sto (c_name (table ! k)) (c_name d)"
  shows "k < length (foldl (\<lambda>table row. insert_into_categories sto row table) table
                (before @ cat # after)) \<and>
         foldl (\<lambda>table row. insert_into_categories sto row table) table (before @ cat # after) ! k =
           (table ! k)\<lparr>c_icon := c_icon cat\<rparr>"
proof -
  let ?ins = "\<lambda>table row. insert_into_categories sto row table"
  let ?T1 = "foldl ?ins table before"
  let ?T2 = "insert_into_categories sto cat ?T1"
  from insert_all_keeps_frame [OF k, of sto before] obtain v where k1: "k < length ?T1"
    and v: "?T1 ! k = (table ! k)\<lparr>c_icon := v\<rparr>" by blast
  from insert_at_target [OF hit k1] v have t2: "?T2 ! k = (table ! k)\<lparr>c_icon := c_icon cat\<rparr>"
    by simp
  from insert_keeps_frame [OF k1, of sto cat] have k2: "k < length ?T2" by simp
  from later t2 have "\<forall>row\<in>set after. \<not> same_key sto (c_id (?T2 ! k)) (c_id row) \<and>
            \<not> same_key sto (c_name (?T2 ! k)) (c_name row)" by simp
  from insert_all_keeps_other [OF k2 this] t2
  have "foldl ?ins ?T2 after ! k = (table ! k)\<lparr>c_icon := c_icon cat\<rparr>" by simp
  moreover from insert_all_keeps_frame [OF k2, of sto after]
  have "k < length (foldl ?ins ?T2 after)" by simp
  ultimately show ?thesis by simp
qed

lemma backup_categories_table:
  assumes "backup sto cond data db = (Inr response, db')"
  shows "categories_table db' =
           foldl (\<lambda>table row. insert_into_categories sto row table) (categories_table db)
             (categories data)"
proof -
  from backup_Inr [OF assms] obtain cs where
    cs: "store_all store_category (categories data) = Inr cs" and
    c: "categories_table db' =
          foldl (\<lambda>table row. insert_into_categories sto row table) (categories_table db) cs"
    unfolding written_def by blast
  from store_all_category [OF cs] c show ?thesis by simp
qed

lemma stored_rows_keep_frame:
  assumes "r \<in> set table"
  shows "\<exists>v. r\<lparr>c_icon := v\<rparr> \<in>
           set (foldl (\<lambda>table row. insert_into_categories sto row table) table rows)"
proof -
  from assms obtain k where k: "k < length table" and r: "table ! k = r"
    by (auto simp: in_set_conv_nth)
  from insert_all_keeps_frame [OF k, of sto rows] r obtain v where
    "k < length (foldl (\<lambda>table row. insert_into_categories sto row table) table rows)" and
    "foldl (\<lambda>table row. insert_into_categories sto row table) table rows ! k = r\<lparr>c_icon := v\<rparr>"
    by auto
  then show ?thesis by (metis nth_mem)
qed

lemma category_updated:
  assumes keys: "unique_keys sto db"
    and backup: "backup sto cond data db = (Inr response, db')"
    and stored: "stored \<in> set (categories_table db)"
    and cats: "categories data = before @ [cat] @ after"
    and meets: "same_key sto (c_id cat) (c_id stored) \<or>
        (same_key sto (c_name cat) (c_name stored) \<and>
         (\<forall>x\<in>set (categories_table db) \<union> set before.
            same_key sto (c_id x) (c_id cat) \<longrightarrow> same_key sto (c_name x) (c_name cat)))"
    and later: "\<forall>later\<in>set after. \<not> same_key sto (c_id later) (c_id stored) \<and>
                  \<not> same_key sto (c_name later) (c_name stored)"
  shows "stored\<lparr>c_icon := c_icon cat\<rparr> \<in> set (categories_table db') \<and>
         filter (\<lambda>r. same_key sto (c_id r) (c_id stored)) (categories_table db') =
           [stored\<lparr>c_icon := c_icon cat\<rparr>] \<and>
         filter (\<lambda>r. same_key sto (c_name r) (c_name stored)) (categories_table db') =
           [stored\<lparr>c_icon := c_icon cat\<rparr>] \<and>
         length (categories_table db') \<le> length (categories_table db) + length before + length after"
proof -
  let ?ins = "\<lambda>table row. insert_into_categories sto row table"
  let ?t = "categories_table db"
  let ?T1 = "foldl ?ins ?t before"
  from keys have d_id: "distinct (map (\<lambda>r. collate sto (c_id r)) ?t)"
    and d_name: "distinct (map (\<lambda>r. collate sto (c_name r)) ?t)"
    by (simp_all add: unique_keys_def)
  from insert_all_categories_distinct [OF d_id d_name, of before]
  have d1_id: "distinct (map (\<lambda>r. collate sto (c_id r)) ?T1)"
    and d1_name: "distinct (map (\<lambda>r. collate sto (c_name r)) ?T1)" by simp_all
  from stored obtain k where k: "k < length ?t" and r: "?t ! k = stored"
    by (auto simp: in_set_conv_nth)
  from insert_all_keeps_frame [OF k, of sto before] r obtain v where k1: "k < length ?T1"
    and v: "?T1 ! k = stored\<lparr>c_icon := v\<rparr>" by auto
  have hit: "target sto cat ?T1 = k"
    using meets
  proof
    assume "same_key sto (c_id cat) (c_id stored)"
    with v have "same_key sto (c_id (?T1 ! k)) (c_id cat)" by (simp add: same_key_def)
    from target_by_id [OF d1_id k1 this] show ?thesis .
  next
    assume a: "same_key sto (c_name cat) (c_name stored) \<and>
         (\<forall>x\<in>set ?t \<union> set before.
            same_key sto (c_id x) (c_id cat) \<longrightarrow> same_key sto (c_name x) (c_name cat))"
    with v have n: "same_key sto (c_name (?T1 ! k)) (c_name cat)" by (simp add: same_key_def)
    have "\<forall>x\<in>set ?T1. same_key sto (c_id x) (c_id cat) \<longrightarrow> same_key sto (c_name x) (c_name cat)"
    proof (intro ballI impI)
      fix x assume x: "x \<in> set ?T1" and i: "same_key sto (c_id x) (c_id cat)"
      from insert_all_origin [OF x] obtain y where "y \<in> set ?t \<union> set before"
        and "c_id x = c_id y" and "c_name x = c_name y" by blast
      with a i show "same_key sto (c_name x) (c_name cat)" by (auto simp: same_key_def)
    qed
    from target_by_name [OF d1_name k1 n this] show ?thesis .
  qed
  from later r have "\<forall>d\<in>set after. \<not> same_key sto (c_id (?t ! k)) (c_id d) \<and>
                  \<not> same_key sto (c_name (?t ! k)) (c_name d)"
    by (auto simp: same_key_def)
  from category_icon_set [OF k hit this] r backup_categories_table [OF backup] cats
  have k': "k < length (categories_table db')"
    and row: "categories_table db' ! k = stored\<lparr>c_icon := c_icon cat\<rparr>" by simp_all
  then have member: "stored\<lparr>c_icon := c_icon cat\<rparr> \<in> set (categories_table db')"
    by (metis nth_mem)
  from backup_Inr [OF backup] have "written sto data db db'" by simp
  from written_unique_keys [OF keys this]
  have d'_id: "distinct (map (\<lambda>r. collate sto (c_id r)) (categories_table db'))"
    and d'_name: "distinct (map (\<lambda>r. collate sto (c_name r)) (categories_table db'))"
    by (simp_all add: unique_keys_def)
  from distinct_filter_key [OF d'_id member]
  have f_id: "filter (\<lambda>r. same_key sto (c_id r) (c_id stored)) (categories_table db') =
           [stored\<lparr>c_icon := c_icon cat\<rparr>]" by (simp add: same_key_def)
  from distinct_filter_key [OF d'_name member]
  have f_name: "filter (\<lambda>r. same_key sto (c_name r) (c_name stored)) (categories_table db') =
           [stored\<lparr>c_icon := c_icon cat\<rparr>]" by (simp add: same_key_def)
  let ?T2 = "insert_into_categories sto cat ?T1"
  from hit k1 have "length ?T2 = length ?T1" by (simp add: length_insert_into_categories)
  with length_insert_all [of sto ?t before] length_insert_all [of sto ?T2 after]
    backup_categories_table [OF backup] cats
  have "length (categories_table db') \<le> length ?t + length before + length after" by simp
  with member f_id f_name show ?thesis by simp
qed

section \<open>The icon of a stored category\<close>

lemmas category_examples =
  category_food_c1_def category_food_c2_def category_rent_c2_def category_food_c3_def
  category_rent_c1_def category_travel_c1_def

lemmas column_checks = varchar_def char_length_def nullable_def first_error.simps

lemma store_category_examples:
  "store_category category_food_c1 = Inr category_food_c1"
  "store_category category_food_c2 = Inr category_food_c2"
  "store_category category_rent_c2 = Inr category_rent_c2"
  "store_category category_food_c3 = Inr category_food_c3"
  "store_category category_rent_c1 = Inr category_rent_c1"
  "store_category category_travel_c1 = Inr category_travel_c1"
  by (simp_all add: store_category_def category_examples column_checks)

lemma backup_categories_no_faults:
  assumes "store_all store_category cats = Inr cats"
  shows "backup sto reachable \<lparr>transactions = [], budgets = [], categories = cats\<rparr> db =
    (Inr \<lparr>status = ''success'', message = ''Backup completed successfully'',
          transactions_backed_up = 0, budgets_backed_up = 0,
          categories_backed_up = length cats\<rparr>,
     db\<lparr>categories_table :=
          foldl (\<lambda>table row. insert_into_categories sto row table) (categories_table db) cats\<rparr>)"
  using backup_no_faults [OF no_faults_reachable, of sto
      "\<lparr>transactions = [], budgets = [], categories = cats\<rparr>" "[]" "[]" cats db] assms
  by simp

lemma backup_food_c1:
  "backup binary_storage reachable
     \<lparr>transactions = [], budgets = [], categories = [category_food_c1]\<rparr> empty_database =
     (Inr \<lparr>status = ''success'', message = ''Backup completed successfully'',
           transactions_backed_up = 0, budgets_backed_up = 0, categories_backed_up = 1\<rparr>,
      \<lparr>transactions_table = [], budgets_table = [], categories_table = [category_food_c1]\<rparr>)"
  by (simp add: backup_categories_no_faults store_category_examples empty_database_def
      insert_into_categories_def)

lemma backup_food_c2:
  "backup binary_storage reachable
     \<lparr>transactions = [], budgets = [], categories = [category_food_c2]\<rparr>
     \<lparr>transactions_table = [], budgets_table = [], categories_table = [category_food_c1]\<rparr> =
     (Inr \<lparr>status = ''success'', message = ''Backup completed successfully'',
           transactions_backed_up = 0, budgets_backed_up = 0, categories_backed_up = 1\<rparr>,
      \<lparr>transactions_table = [], budgets_table = [],
        categories_table = [category_food_c1\<lparr>c_icon := c_icon category_food_c2\<rparr>]\<rparr>)"
  by (simp add: backup_categories_no_faults store_category_examples
      insert_into_categories_def same_key_def binary_storage_def)
     (simp add: category_examples)

lemma backup_food_c2_beside_rent:
  "backup binary_storage reachable
     \<lparr>transactions = [], budgets = [], categories = [category_food_c2]\<rparr>
     \<lparr>transactions_table = [], budgets_table = [],
       categories_table = [category_food_c1, category_rent_c2]\<rparr> =
     (Inr \<lparr>status = ''success'', message = ''Backup completed successfully'',
           transactions_backed_up = 0, budgets_backed_up = 0, categories_backed_up = 1\<rparr>,
      \<lparr>transactions_table = [], budgets_table = [],
        categories_table =
          [category_food_c1, category_rent_c2\<lparr>c_icon := c_icon category_food_c2\<rparr>]\<rparr>)"
  by (simp add: backup_categories_no_faults store_category_examples
      insert_into_categories_def same_key_def binary_storage_def)
     (simp add: category_examples)

text \<open>
  C3 (as amended). After every successful backup, every category row stored before is
  still stored with its id, name, type and \<^verbatim>\<open>created_at\<close>: only icons change. When,
  moreover, the key constraints hold before the backup, the backup contains a category
  with the name of a stored row, every stored row and every earlier category of the call
  that has the submitted id also has the submitted name, and no later category of the
  call has the id or the name of the stored row, then the one row of that name is the
  stored row with the submitted icon.
\<close>

theorem backup_sets_icon_of_named_category:
  assumes "backup sto cond data db = (Inr response, db')"
  shows "(\<forall>r\<in>set (categories_table db). \<exists>v. r\<lparr>c_icon := v\<rparr> \<in> set (categories_table db')) \<and>
         (unique_keys sto db \<and>
          stored \<in> set (categories_table db) \<and>
          categories data = before @ [cat] @ after \<and>
          same_key sto (c_name cat) (c_name stored) \<and>
          (\<forall>x\<in>set (categories_table db) \<union> set before.
             same_key sto (c_id x) (c_id cat) \<longrightarrow> same_key sto (c_name x) (c_name cat)) \<and>
          (\<forall>later\<in>set after. \<not> same_key sto (c_id later) (c_id stored) \<and>
             \<not> same_key sto (c_name later) (c_name stored)) \<longrightarrow>
          filter (\<lambda>r. same_key sto (c_name r) (c_name cat)) (categories_table db') =
            [stored\<lparr>c_icon := c_icon cat\<rparr>])"
proof -
  have frame: "\<exists>v. r\<lparr>c_icon := v\<rparr> \<in> set (categories_table db')"
    if "r \<in> set (categories_table db)" for r
    using stored_rows_keep_frame [OF that, of sto "categories data"]
      backup_categories_table [OF assms] by simp
  have icon: "filter (\<lambda>r. same_key sto (c_name r) (c_name cat)) (categories_table db') =
            [stored\<lparr>c_icon := c_icon cat\<rparr>]"
    if keys: "unique_keys sto db"
      and stored: "stored \<in> set (categories_table db)"
      and cats: "categories data = before @ [cat] @ after"
      and name: "same_key sto (c_name cat) (c_name stored)"
      and ids: "\<forall>x\<in>set (categories_table db) \<union> set before.
             same_key sto (c_id x) (c_id cat) \<longrightarrow> same_key sto (c_name x) (c_name cat)"
      and later: "\<forall>later\<in>set after. \<not> same_key sto (c_id later) (c_id stored) \<and>
             \<not> same_key sto (c_name later) (c_name stored)"
  proof -
    from name ids have meets: "same_key sto (c_id cat) (c_id stored) \<or>
        (same_key sto (c_name cat) (c_name stored) \<and>
         (\<forall>x\<in>set (categories_table db) \<union> set before.
            same_key sto (c_id x) (c_id cat) \<longrightarrow> same_key sto (c_name x) (c_name cat)))"
      by blast
    from name have "filter (\<lambda>r. same_key sto (c_name r) (c_name cat)) (categories_table db') =
        filter (\<lambda>r. same_key sto (c_name r) (c_name stored)) (categories_table db')"
      by (simp add: same_key_def)
    with category_updated [OF keys assms stored cats meets later] show ?thesis by simp
  qed
  from frame icon show ?thesis by blast
qed

theorem backup_sets_icon_of_named_category_witness:
  "backup binary_storage reachable
     \<lparr>transactions = [], budgets = [], categories = [category_food_c1]\<rparr> empty_database =
     (Inr \<lparr>status = ''success'', message = ''Backup completed successfully'',
           transactions_backed_up = 0, budgets_backed_up = 0, categories_backed_up = 1\<rparr>,
      \<lparr>transactions_table = [], budgets_table = [], categories_table = [category_food_c1]\<rparr>) \<and>
   backup binary_storage reachable
     \<lparr>transactions = [], budgets = [], categories = [category_food_c2]\<rparr>
     \<lparr>transactions_table = [], budgets_table = [], categories_table = [category_food_c1]\<rparr> =
     (Inr \<lparr>status = ''success'', message = ''Backup completed successfully'',
           transactions_backed_up = 0, budgets_backed_up = 0, categories_backed_up = 1\<rparr>,
      \<lparr>transactions_table = [], budgets_table = [],
        categories_table = [category_food_c1\<lparr>c_icon := c_icon category_food_c2\<rparr>]\<rparr>) \<and>
   filter (\<lambda>r. same_key binary_storage (c_name r) (c_name category_food_c2))
     [category_food_c1\<lparr>c_icon := c_icon category_food_c2\<rparr>] =
     [category_food_c1\<lparr>c_icon := c_icon category_food_c2\<rparr>] \<and>
   category_food_c1\<lparr>c_icon := c_icon category_food_c2\<rparr> =
     \<lparr>c_id = ''c1'', c_name = ''Food'', c_type = ''expense'',
      c_created_at = ''2024-01-01 12:00:00'',
      c_icon = Some [CHR 0xF0, CHR 0x9F, CHR 0x8D, CHR 0x95]\<rparr> \<and>
   backup binary_storage reachable
     \<lparr>transactions = [], budgets = [], categories = [category_food_c2]\<rparr>
     \<lparr>transactions_table = [], budgets_table = [],
       categories_table = [category_food_c1, category_rent_c2]\<rparr> =
     (Inr \<lparr>status = ''success'', message = ''Backup completed successfully'',
           transactions_backed_up = 0, budgets_backed_up = 0, categories_backed_up = 1\<rparr>,
      \<lparr>transactions_table = [], budgets_table = [],
        categories_table =
          [category_food_c1, category_rent_c2\<lparr>c_icon := c_icon category_food_c2\<rparr>]\<rparr>) \<and>
   (\<exists>v. category_food_c1\<lparr>c_icon := v\<rparr> \<in>
      set [category_food_c1, category_rent_c2\<lparr>c_icon := c_icon category_food_c2\<rparr>]) \<and>
   (\<exists>v. category_rent_c2\<lparr>c_icon := v\<rparr> \<in>
      set [category_food_c1, category_rent_c2\<lparr>c_icon := c_icon category_food_c2\<rparr>])"
proof -
  let ?db = "\<lparr>transactions_table = ([] :: int Transaction list), budgets_table = [],
      categories_table = [category_food_c1]\<rparr>"
  have 1: "unique_keys binary_storage ?db"
    by (simp add: unique_keys_def)
  have 3: "category_food_c1 \<in> set (categories_table ?db)"
    by simp
  have 4: "categories \<lparr>transactions = [], budgets = [], categories = [category_food_c2]\<rparr> =
     [] @ [category_food_c2] @ []" by simp
  have 5: "same_key binary_storage (c_name category_food_c2) (c_name category_food_c1)"
    by (simp add: same_key_def category_examples)
  have 6: "\<forall>x\<in>set (categories_table ?db) \<union> set [].
         same_key binary_storage (c_id x) (c_id category_food_c2) \<longrightarrow>
         same_key binary_storage (c_name x) (c_name category_food_c2)"
    by (simp add: same_key_def category_examples)
  have 7: "\<forall>later\<in>set []. \<not> same_key binary_storage (c_id later) (c_id category_food_c1) \<and>
           \<not> same_key binary_storage (c_name later) (c_name category_food_c1)"
    by simp
  from backup_sets_icon_of_named_category [OF backup_food_c2,
      where stored = category_food_c1 and before = "[]" and cat = category_food_c2
        and after = "[]"] 1 3 4 5 6 7
  have icon: "filter (\<lambda>r. same_key binary_storage (c_name r) (c_name category_food_c2))
     (categories_table \<lparr>transactions_table = ([] :: int Transaction list), budgets_table = [],
        categories_table = [category_food_c1\<lparr>c_icon := c_icon category_food_c2\<rparr>]\<rparr>) =
     [category_food_c1\<lparr>c_icon := c_icon category_food_c2\<rparr>]"
    by blast
  from backup_sets_icon_of_named_category [OF backup_food_c2_beside_rent]
  have frame: "\<forall>r\<in>set [category_food_c1, category_rent_c2].
      \<exists>v. r\<lparr>c_icon := v\<rparr> \<in>
        set [category_food_c1, category_rent_c2\<lparr>c_icon := c_icon category_food_c2\<rparr>]"
    by simp
  from frame have "\<exists>v. category_food_c1\<lparr>c_icon := v\<rparr> \<in>
      set [category_food_c1, category_rent_c2\<lparr>c_icon := c_icon category_food_c2\<rparr>]"
    and "\<exists>v. category_rent_c2\<lparr>c_icon := v\<rparr> \<in>
      set [category_food_c1, category_rent_c2\<lparr>c_icon := c_icon category_food_c2\<rparr>]"
    by simp_all
  with icon backup_food_c1 backup_food_c2 backup_food_c2_beside_rent
  show ?thesis by (simp add: category_examples)
qed

theorem backup_sets_icon_of_named_category_counterexample:
  "c_name category_food_c2 = c_name category_food_c1 \<and>
   backup binary_storage reachable
     \<lparr>transactions = [], budgets = [], categories = [category_food_c2]\<rparr>
     \<lparr>transactions_table = [], budgets_table = [],
       categories_table = [category_food_c1, category_rent_c2]\<rparr> =
     (Inr \<lparr>status = ''success'', message = ''Backup completed successfully'',
           transactions_backed_up = 0, budgets_backed_up = 0, categories_backed_up = 1\<rparr>,
      \<lparr>transactions_table = [], budgets_table = [],
        categories_table =
          [category_food_c1, category_rent_c2\<lparr>c_icon := c_icon category_food_c2\<rparr>]\<rparr>) \<and>
   c_icon category_food_c1 \<noteq> c_icon category_food_c2 \<and>
   backup binary_storage reachable
     \<lparr>transactions = [], budgets = [], categories = [category_food_c2, category_food_c3]\<rparr>
     \<lparr>transactions_table = [], budgets_table = [], categories_table = [category_food_c1]\<rparr> =
     (Inr \<lparr>status = ''success'', message = ''Backup completed successfully'',
           transactions_backed_up = 0, budgets_backed_up = 0, categories_backed_up = 2\<rparr>,
      \<lparr>transactions_table = [], budgets_table = [],
        categories_table = [category_food_c1\<lparr>c_icon := None\<rparr>]\<rparr>) \<and>
   c_icon category_food_c2 \<noteq> None"
  by (simp add: backup_categories_no_faults store_category_examples
      insert_into_categories_def same_key_def binary_storage_def)
     (simp add: category_examples)

text \<open>
  C10 (as amended). When a successful backup contains a category with the id of a stored
  row, and no later category of the call has the id or the name of that row, the one row
  of that id is the stored row with the submitted icon (its id, name, type and
  \<^verbatim>\<open>created_at\<close> as stored), and the table has grown by at most one row for each other
  category of the call: the submitted category creates no row.
\<close>

theorem backup_sets_icon_of_category_with_stored_id:
  assumes "unique_keys sto db"
    and "backup sto cond data db = (Inr response, db')"
    and "stored \<in> set (categories_table db)"
    and "categories data = before @ [cat] @ after"
    and "same_key sto (c_id cat) (c_id stored)"
    and "\<forall>later\<in>set after. \<not> same_key sto (c_id later) (c_id stored) \<and>
           \<not> same_key sto (c_name later) (c_name stored)"
  shows "filter (\<lambda>r. same_key sto (c_id r) (c_id cat)) (categories_table db') =
           [stored\<lparr>c_icon := c_icon cat\<rparr>] \<and>
         length (categories_table db') \<le>
           length (categories_table db) + length before + length after"
proof -
  from assms(5) have meets: "same_key sto (c_id cat) (c_id stored) \<or>
        (same_key sto (c_name cat) (c_name stored) \<and>
         (\<forall>x\<in>set (categories_table db) \<union> set before.
            same_key sto (c_id x) (c_id cat) \<longrightarrow> same_key sto (c_name x) (c_name cat)))"
    by blast
  from assms(5) have "filter (\<lambda>r. same_key sto (c_id r) (c_id cat)) (categories_table db') =
      filter (\<lambda>r. same_key sto (c_id r) (c_id stored)) (categories_table db')"
    by (simp add: same_key_def)
  with category_updated [OF assms(1-4) meets assms(6)] show ?thesis by simp
qed

lemma backup_rent_c1:
  "backup binary_storage reachable
     \<lparr>transactions = [], budgets = [], categories = [category_rent_c1]\<rparr>
     \<lparr>transactions_table = [], budgets_table = [], categories_table = [category_food_c1]\<rparr> =
     (Inr \<lparr>status = ''success'', message = ''Backup completed successfully'',
           transactions_backed_up = 0, budgets_backed_up = 0, categories_backed_up = 1\<rparr>,
      \<lparr>transactions_table = [], budgets_table = [],
        categories_table = [category_food_c1\<lparr>c_icon := Some ''home''\<rparr>]\<rparr>)"
  by (simp add: backup_categories_no_faults store_category_examples
      insert_into_categories_def same_key_def binary_storage_def)
     (simp add: category_examples)

theorem backup_sets_icon_of_category_with_stored_id_witness:
  "c_name category_rent_c1 \<noteq> c_name category_food_c1 \<and>
   backup binary_storage reachable
     \<lparr>transactions = [], budgets = [], categories = [category_rent_c1]\<rparr>
     \<lparr>transactions_table = [], budgets_table = [], categories_table = [category_food_c1]\<rparr> =
     (Inr \<lparr>status = ''success'', message = ''Backup completed successfully'',
           transactions_backed_up = 0, budgets_backed_up = 0, categories_backed_up = 1\<rparr>,
      \<lparr>transactions_table = [], budgets_table = [],
        categories_table = [category_food_c1\<lparr>c_icon := Some ''home''\<rparr>]\<rparr>) \<and>
   filter (\<lambda>r. same_key binary_storage (c_id r) (c_id category_rent_c1))
     [category_food_c1\<lparr>c_icon := Some ''home''\<rparr>] =
     [category_food_c1\<lparr>c_icon := c_icon category_rent_c1\<rparr>] \<and>
   length [category_food_c1\<lparr>c_icon := Some ''home''\<rparr>] \<le> length [category_food_c1]"
proof -
  have 1: "unique_keys binary_storage
     \<lparr>transactions_table = [], budgets_table = [], categories_table = [category_food_c1]\<rparr>"
    by (simp add: unique_keys_def)
  have 3: "category_food_c1 \<in> set (categories_table
     \<lparr>transactions_table = [], budgets_table = [], categories_table = [category_food_c1]\<rparr>)"
    by simp
  have 4: "categories \<lparr>transactions = [], budgets = [], categories = [category_rent_c1]\<rparr> =
     [] @ [category_rent_c1] @ []" by simp
  have 5: "same_key binary_storage (c_id category_rent_c1) (c_id category_food_c1)"
    by (simp add: same_key_def category_examples)
  have 6: "\<forall>later\<in>set []. \<not> same_key binary_storage (c_id later) (c_id category_food_c1) \<and>
           \<not> same_key binary_storage (c_name later) (c_name category_food_c1)"
    by simp
  from backup_sets_icon_of_category_with_stored_id [OF 1 backup_rent_c1 3 4 5 6] backup_rent_c1
  show ?thesis by (simp add: category_examples)
qed

theorem backup_sets_icon_of_category_with_stored_id_counterexample:
  "c_id category_rent_c1 = c_id category_food_c1 \<and>
   c_name category_rent_c1 \<noteq> c_name category_food_c1 \<and>
   backup binary_storage reachable
     \<lparr>transactions = [], budgets = [], categories = [category_rent_c1, category_travel_c1]\<rparr>
     \<lparr>transactions_table = [], budgets_table = [], categories_table = [category_food_c1]\<rparr> =
     (Inr \<lparr>status = ''success'', message = ''Backup completed successfully'',
           transactions_backed_up = 0, budgets_backed_up = 0, categories_backed_up = 2\<rparr>,
      \<lparr>transactions_table = [], budgets_table = [],
        categories_table = [category_food_c1\<lparr>c_icon := None\<rparr>]\<rparr>) \<and>
   c_icon category_rent_c1 \<noteq> None"
  by (simp add: backup_categories_no_faults store_category_examples
      insert_into_categories_def same_key_def binary_storage_def)
     (simp add: category_examples)

section \<open>Inserting the same categories again\<close>

subsection \<open>The row met depends on the keys of the table only\<close>

lemma index_where_map: "index_where (\<lambda>r. P (f r)) xs = index_where P (map f xs)"
  by (induction xs) auto

lemma index_where_append:
  "index_where P (xs @ ys) =
     (if \<exists>x\<in>set xs. P x then index_where P xs else length xs + index_where P ys)"
  by (induction xs) auto

lemma target_keys:
  assumes "map c_id t = map c_id u" and "map c_name t = map c_name u"
  shows "target sto d t = target sto d u"
proof -
  from assms(1) have "length t = length u" by (metis length_map)
  moreover from assms(1) have "index_where (\<lambda>r. same_key sto (c_id r) (c_id d)) t =
      index_where (\<lambda>r. same_key sto (c_id r) (c_id d)) u"
    by (simp add: index_where_map [of "\<lambda>i. same_key sto i (c_id d)" c_id])
  moreover from assms(2) have "index_where (\<lambda>r. same_key sto (c_name r) (c_name d)) t =
      index_where (\<lambda>r. same_key sto (c_name r) (c_name d)) u"
    by (simp add: index_where_map [of "\<lambda>i. same_key sto i (c_name d)" c_name])
  ultimately show ?thesis by (simp add: target_def Let_def)
qed

lemma target_set_icon:
  assumes "k < length t"
  shows "target sto d (t[k := (t ! k)\<lparr>c_icon := v\<rparr>]) = target sto d t"
  using assms
  by (intro target_keys) (simp_all add: map_key_set_icon)

lemma insert_set_icon:
  assumes "k < length t"
  shows "\<exists>v'. insert_into_categories sto d (t[k := (t ! k)\<lparr>c_icon := v\<rparr>]) =
           (insert_into_categories sto d t)
             [k := (insert_into_categories sto d t ! k)\<lparr>c_icon := v'\<rparr>]"
proof (cases "target sto d t < length t")
  case True
  show ?thesis
  proof (cases "target sto d t = k")
    case True
    with assms show ?thesis
      by (intro exI [of _ "c_icon d"])
         (simp add: insert_into_categories_target target_set_icon)
  next
    case False
    with True assms show ?thesis
      by (intro exI [of _ v])
         (simp add: insert_into_categories_target target_set_icon list_update_swap)
  qed
next
  case False
  with assms show ?thesis
    by (intro exI [of _ v])
       (simp add: insert_into_categories_target target_set_icon list_update_append nth_append)
qed

lemma insert_all_set_icon:
  assumes "k < length t"
  shows "\<exists>v'. foldl (\<lambda>table row. insert_into_categories sto row table)
                 (t[k := (t ! k)\<lparr>c_icon := v\<rparr>]) rows =
           (foldl (\<lambda>table row. insert_into_categories sto row table) t rows)
             [k := (foldl (\<lambda>table row. insert_into_categories sto row table) t rows ! k)
                     \<lparr>c_icon := v'\<rparr>]"
  using assms
proof (induction rows arbitrary: t v)
  case Nil
  then show ?case by auto
next
  case (Cons d rows)
  from insert_set_icon [OF Cons.prems, of sto d v] obtain v' where
    v': "insert_into_categories sto d (t[k := (t ! k)\<lparr>c_icon := v\<rparr>]) =
           (insert_into_categories sto d t)
             [k := (insert_into_categories sto d t ! k)\<lparr>c_icon := v'\<rparr>]" by blast
  from insert_keeps_frame [OF Cons.prems, of sto d]
  have "k < length (insert_into_categories sto d t)" by simp
  from Cons.IH [OF this, of v'] v' show ?case by simp
qed

subsection \<open>Every category of a backup meets a row afterwards\<close>

lemma met_after_insert_all:
  assumes "target sto d t < length t"
  shows "target sto d (foldl (\<lambda>table row. insert_into_categories sto row table) t rows) <
         length (foldl (\<lambda>table row. insert_into_categories sto row table) t rows)"
proof -
  from assms obtain r where r: "r \<in> set t"
    and k: "same_key sto (c_id r) (c_id d) \<or> same_key sto (c_name r) (c_name d)"
    by (auto simp: target_less_iff)
  from stored_rows_keep_frame [OF r, of sto rows] obtain v where
    "r\<lparr>c_icon := v\<rparr> \<in> set (foldl (\<lambda>table row. insert_into_categories sto row table) t rows)"
    by blast
  with k show ?thesis
    unfolding target_less_iff by (intro bexI [of _ "r\<lparr>c_icon := v\<rparr>"]) simp_all
qed

lemma met_after_insert:
  "target sto d (insert_into_categories sto d t) < length (insert_into_categories sto d t)"
proof (cases "target sto d t < length t")
  case True
  from met_after_insert_all [OF True, of "[d]"] show ?thesis by simp
next
  case False
  then have "insert_into_categories sto d t = t @ [d]"
    by (simp add: insert_into_categories_target)
  then show ?thesis
    unfolding target_less_iff by (simp add: same_key_def)
qed

lemma all_met_after_insert_all:
  assumes "d \<in> set rows"
  shows "target sto d (foldl (\<lambda>table row. insert_into_categories sto row table) t rows) <
         length (foldl (\<lambda>table row. insert_into_categories sto row table) t rows)"
  using assms
proof (induction rows arbitrary: t)
  case Nil
  then show ?case by simp
next
  case (Cons e rows)
  show ?case
  proof (cases "d = e")
    case True
    from met_after_insert_all [OF met_after_insert [of sto d t], of rows] True
    show ?thesis by simp
  next
    case False
    with Cons.prems have "d \<in> set rows" by simp
    from Cons.IH [OF this, of "insert_into_categories sto e t"] show ?thesis by simp
  qed
qed

subsection \<open>A row appended after the rows that the categories meet\<close>

lemma insert_before_appended:
  assumes "(\<exists>r\<in>set t. same_key sto (c_id r) (c_id d)) \<or>
           ((\<exists>r\<in>set t. same_key sto (c_name r) (c_name d)) \<and> \<not> same_key sto (c_id c) (c_id d))"
  shows "insert_into_categories sto d (t @ [c]) = insert_into_categories sto d t @ [c]"
proof -
  from assms have m: "target sto d t < length t"
    unfolding target_less_iff by blast
  have "target sto d (t @ [c]) = target sto d t"
  proof (cases "\<exists>r\<in>set t. same_key sto (c_id r) (c_id d)")
    case True
    then have "index_where (\<lambda>r. same_key sto (c_id r) (c_id d)) t < length t"
      by (simp add: index_where_less_iff)
    with True show ?thesis
      by (simp add: target_def index_where_append)
  next
    case False
    with assms have n: "\<exists>r\<in>set t. same_key sto (c_name r) (c_name d)"
      and c: "\<not> same_key sto (c_id c) (c_id d)" by auto
    from False have "\<not> index_where (\<lambda>r. same_key sto (c_id r) (c_id d)) t < length t"
      by (simp add: index_where_less_iff)
    with False n c show ?thesis
      by (simp add: target_def index_where_append)
  qed
  with m show ?thesis
    by (simp add: insert_into_categories_target list_update_append nth_append)
qed

lemma insert_all_before_appended:
  assumes "\<forall>d\<in>set rows. (\<exists>r\<in>set t. same_key sto (c_id r) (c_id d)) \<or>
           ((\<exists>r\<in>set t. same_key sto (c_name r) (c_name d)) \<and> \<not> same_key sto (c_id c) (c_id d))"
  shows "foldl (\<lambda>table row. insert_into_categories sto row table) (t @ [c]) rows =
         foldl (\<lambda>table row. insert_into_categories sto row table) t rows @ [c]"
  using assms
proof (induction rows arbitrary: t)
  case Nil
  then show ?case by simp
next
  case (Cons d rows)
  from Cons.prems have 1: "insert_into_categories sto d (t @ [c]) =
      insert_into_categories sto d t @ [c]"
    by (intro insert_before_appended) simp
  have keep: "\<exists>r\<in>set (insert_into_categories sto d t). P (c_id r) (c_name r)"
    if "\<exists>r\<in>set t. P (c_id r) (c_name r)" for P
  proof -
    from that obtain r where r: "r \<in> set t" and p: "P (c_id r) (c_name r)" by blast
    from stored_rows_keep_frame [OF r, of sto "[d]"] obtain v where
      "r\<lparr>c_icon := v\<rparr> \<in> set (insert_into_categories sto d t)" by auto
    with p show ?thesis by (intro bexI [of _ "r\<lparr>c_icon := v\<rparr>"]) simp_all
  qed
  have "\<forall>e\<in>set rows.
      (\<exists>r\<in>set (insert_into_categories sto d t). same_key sto (c_id r) (c_id e)) \<or>
      ((\<exists>r\<in>set (insert_into_categories sto d t). same_key sto (c_name r) (c_name e)) \<and>
       \<not> same_key sto (c_id c) (c_id e))"
  proof
    fix e assume e: "e \<in> set rows"
    with Cons.prems have "(\<exists>r\<in>set t. same_key sto (c_id r) (c_id e)) \<or>
           ((\<exists>r\<in>set t. same_key sto (c_name r) (c_name e)) \<and> \<not> same_key sto (c_id c) (c_id e))"
      by simp
    with keep [of "\<lambda>i n. same_key sto i (c_id e)"] keep [of "\<lambda>i n. same_key sto n (c_name e)"]
    show "(\<exists>r\<in>set (insert_into_categories sto d t). same_key sto (c_id r) (c_id e)) \<or>
      ((\<exists>r\<in>set (insert_into_categories sto d t). same_key sto (c_name r) (c_name e)) \<and>
       \<not> same_key sto (c_id c) (c_id e))" by blast
  qed
  from Cons.IH [OF this] 1 show ?case by simp
qed

subsection \<open>The categories of a backup, inserted again\<close>

lemma insert_all_twice:
  assumes "\<forall>c\<in>set rows. \<forall>c'\<in>set rows.
             same_key sto (c_id c) (c_id c') \<longrightarrow> same_key sto (c_name c) (c_name c')"
  shows "foldl (\<lambda>table row. insert_into_categories sto row table)
           (foldl (\<lambda>table row. insert_into_categories sto row table) t rows) rows =
         foldl (\<lambda>table row. insert_into_categories sto row table) t rows"
  using assms
proof (induction rows rule: rev_induct)
  case Nil
  then show ?case by simp
next
  case (snoc c rows)
  let ?ins = "\<lambda>table row. insert_into_categories sto row table"
  let ?u = "foldl ?ins t rows"
  from snoc.prems have "\<forall>c\<in>set rows. \<forall>c'\<in>set rows.
             same_key sto (c_id c) (c_id c') \<longrightarrow> same_key sto (c_name c) (c_name c')" by simp
  from snoc.IH [OF this] have IH: "foldl ?ins ?u rows = ?u" .
  have "insert_into_categories sto c (foldl ?ins (insert_into_categories sto c ?u) rows) =
        insert_into_categories sto c ?u"
  proof (cases "target sto c ?u < length ?u")
    case True
    let ?k = "target sto c ?u"
    from insert_all_set_icon [OF True, of sto "c_icon c" rows] IH obtain v' where
      "foldl ?ins (?u[?k := (?u ! ?k)\<lparr>c_icon := c_icon c\<rparr>]) rows =
         ?u[?k := (?u ! ?k)\<lparr>c_icon := v'\<rparr>]" by auto
    with True show ?thesis
      by (simp add: insert_into_categories_target [of sto c] target_set_icon)
  next
    case False
    then have app: "insert_into_categories sto c ?u = ?u @ [c]"
      by (simp add: insert_into_categories_target)
    from False have none: "\<forall>r\<in>set ?u. \<not> same_key sto (c_id r) (c_id c) \<and>
        \<not> same_key sto (c_name r) (c_name c)"
      unfolding target_less_iff by blast
    have "\<forall>d\<in>set rows. (\<exists>r\<in>set ?u. same_key sto (c_id r) (c_id d)) \<or>
           ((\<exists>r\<in>set ?u. same_key sto (c_name r) (c_name d)) \<and> \<not> same_key sto (c_id c) (c_id d))"
    proof
      fix d assume d: "d \<in> set rows"
      from all_met_after_insert_all [OF d, of sto t] obtain r where r: "r \<in> set ?u"
        and k: "same_key sto (c_id r) (c_id d) \<or> same_key sto (c_name r) (c_name d)"
        unfolding target_less_iff by blast
      show "(\<exists>r\<in>set ?u. same_key sto (c_id r) (c_id d)) \<or>
           ((\<exists>r\<in>set ?u. same_key sto (c_name r) (c_name d)) \<and> \<not> same_key sto (c_id c) (c_id d))"
      proof (cases "same_key sto (c_id r) (c_id d)")
        case True
        with r show ?thesis by blast
      next
        case False
        with k have n: "same_key sto (c_name r) (c_name d)" by simp
        have "\<not> same_key sto (c_id c) (c_id d)"
        proof
          assume "same_key sto (c_id c) (c_id d)"
          with snoc.prems d have "same_key sto (c_name c) (c_name d)" by simp
          with n have "same_key sto (c_name r) (c_name c)" by (simp add: same_key_def)
          with none r show False by blast
        qed
        with n r show ?thesis by blast
      qed
    qed
    from insert_all_before_appended [OF this] IH
    have "foldl ?ins (?u @ [c]) rows = ?u @ [c]" by simp
    moreover from none have "target sto c (?u @ [c]) = length ?u"
      by (simp add: target_def index_where_append same_key_def)
    ultimately show ?thesis
      by (simp add: app insert_into_categories_target [of sto c "?u @ [c]"])
  qed
  then show ?case by simp
qed

section \<open>The same backup twice\<close>

lemma written_twice:
  assumes first: "written sto data db db1" and second: "written sto data db1 db2"
    and cats: "\<forall>c\<in>set (categories data). \<forall>c'\<in>set (categories data).
           same_key sto (c_id c) (c_id c') \<longrightarrow> same_key sto (c_name c) (c_name c')"
  shows "db2 = db1"
proof -
  from first obtain ts bs cs where
    ts: "store_all (store_transaction sto) (transactions data) = Inr ts" and
    bs: "store_all (store_budget sto) (budgets data) = Inr bs" and
    cs: "store_all store_category (categories data) = Inr cs" and
    t1: "transactions_table db1 =
          foldl (\<lambda>table row. replace_into_transactions sto row table) (transactions_table db) ts" and
    b1: "budgets_table db1 =
          foldl (\<lambda>table row. replace_into_budgets sto row table) (budgets_table db) bs" and
    c1: "categories_table db1 =
          foldl (\<lambda>table row. insert_into_categories sto row table) (categories_table db) cs"
    unfolding written_def by blast
  from second ts bs cs have
    t2: "transactions_table db2 =
          foldl (\<lambda>table row. replace_into_transactions sto row table) (transactions_table db1) ts" and
    b2: "budgets_table db2 =
          foldl (\<lambda>table row. replace_into_budgets sto row table) (budgets_table db1) bs" and
    c2: "categories_table db2 =
          foldl (\<lambda>table row. insert_into_categories sto row table) (categories_table db1) cs"
    unfolding written_def by auto
  from store_all_category [OF cs] have cs_def: "cs = categories data" .
  have "transactions_table db2 = transactions_table db1"
    unfolding t2 t1 replace_into_transactions_eq
    by (rule replace_all_idempotent) (simp add: same_key_def)
  moreover have "budgets_table db2 = budgets_table db1"
    unfolding b2 b1 replace_into_budgets_eq
    by (rule replace_all_idempotent) (rule budget_conflict_refl)
  moreover have "categories_table db2 = categories_table db1"
    unfolding c2 c1 cs_def
    by (rule insert_all_twice) (rule cats)
  ultimately show ?thesis by simp
qed

text \<open>
  C5 (as amended). When a backup has succeeded, and of the categories of its data those
  with one id have one name, the same backup once more leaves the database as the first
  left it, whether it succeeds or fails; so a restore returns after it what it returned
  before it.
\<close>

theorem backup_twice_as_once:
  assumes "backup sto cond data db = (Inr response, db1)"
    and "backup sto cond' data db1 = (result, db2)"
    and "\<forall>c\<in>set (categories data). \<forall>c'\<in>set (categories data).
           same_key sto (c_id c) (c_id c') \<longrightarrow> same_key sto (c_name c) (c_name c')"
  shows "db2 = db1 \<and> restore sto cond'' db2 = restore sto cond'' db1"
proof -
  from backup_Inr [OF assms(1)] have first: "written sto data db db1" by simp
  have "db2 = db1"
  proof (cases result)
    case (Inl e)
    with assms(2) show ?thesis by (intro backup_Inl [of sto cond' data db1 e db2]) simp
  next
    case (Inr response')
    with assms(2) have "backup sto cond' data db1 = (Inr response', db2)" by simp
    from backup_Inr [OF this] have "written sto data db1 db2" by simp
    from written_twice [OF first this assms(3)] show ?thesis .
  qed
  then show ?thesis by simp
qed

lemma backup_all_kinds:
  "backup binary_storage reachable
     \<lparr>transactions = [transaction_january], budgets = [budget_food_first],
      categories = [category_food_c1, category_food_c2]\<rparr> empty_database =
     (Inr \<lparr>status = ''success'', message = ''Backup completed successfully'',
           transactions_backed_up = 1, budgets_backed_up = 1, categories_backed_up = 2\<rparr>,
      \<lparr>transactions_table = [transaction_january], budgets_table = [budget_food_first],
       categories_table = [category_food_c1\<lparr>c_icon := c_icon category_food_c2\<rparr>]\<rparr>)"
proof -
  let ?data = "\<lparr>transactions = [transaction_january], budgets = [budget_food_first],
      categories = [category_food_c1, category_food_c2]\<rparr>"
  have ts: "store_all (store_transaction binary_storage) (transactions ?data) =
      Inr [transaction_january]"
    by (simp add: store_transaction_january)
  have bs: "store_all (store_budget binary_storage) (budgets ?data) = Inr [budget_food_first]"
    by (simp add: store_budget_food_first)
  have cs: "store_all store_category (categories ?data) =
      Inr [category_food_c1, category_food_c2]"
    by (simp add: store_category_examples)
  from backup_no_faults [OF no_faults_reachable ts bs cs, of empty_database]
  show ?thesis
    by (simp add: empty_database_def replace_into_transactions_def replace_into_budgets_def
        insert_into_categories_def same_key_def binary_storage_def)
       (simp add: category_examples)
qed

theorem backup_twice_as_once_witness:
  "backup binary_storage reachable
     \<lparr>transactions = [transaction_january], budgets = [budget_food_first],
      categories = [category_food_c1, category_food_c2]\<rparr> empty_database =
     (Inr \<lparr>status = ''success'', message = ''Backup completed successfully'',
           transactions_backed_up = 1, budgets_backed_up = 1, categories_backed_up = 2\<rparr>,
      \<lparr>transactions_table = [transaction_january], budgets_table = [budget_food_first],
       categories_table = [category_food_c1\<lparr>c_icon := c_icon category_food_c2\<rparr>]\<rparr>) \<and>
   snd (backup binary_storage reachable
     \<lparr>transactions = [transaction_january], budgets = [budget_food_first],
      categories = [category_food_c1, category_food_c2]\<rparr>
     \<lparr>transactions_table = [transaction_january], budgets_table = [budget_food_first],
       categories_table = [category_food_c1\<lparr>c_icon := c_icon category_food_c2\<rparr>]\<rparr>) =
     \<lparr>transactions_table = [transaction_january], budgets_table = [budget_food_first],
       categories_table = [category_food_c1\<lparr>c_icon := c_icon category_food_c2\<rparr>]\<rparr> \<and>
   c_id category_food_c1 \<noteq> c_id category_food_c2"
proof -
  let ?data = "\<lparr>transactions = [transaction_january], budgets = [budget_food_first],
      categories = [category_food_c1, category_food_c2]\<rparr>"
  let ?db1 = "\<lparr>transactions_table = [transaction_january], budgets_table = [budget_food_first],
       categories_table = [category_food_c1\<lparr>c_icon := c_icon category_food_c2\<rparr>]\<rparr>"
  have 2: "backup binary_storage reachable ?data ?db1 =
      (fst (backup binary_storage reachable ?data ?db1),
       snd (backup binary_storage reachable ?data ?db1))" by simp
  have 3: "\<forall>c\<in>set (categories ?data). \<forall>c'\<in>set (categories ?data).
           same_key binary_storage (c_id c) (c_id c') \<longrightarrow>
           same_key binary_storage (c_name c) (c_name c')"
    by (simp add: same_key_def category_examples)
  from backup_twice_as_once [OF backup_all_kinds 2 3, of reachable] backup_all_kinds
  show ?thesis by (simp add: category_examples)
qed

theorem backup_twice_counterexample:
  "backup binary_storage reachable
     \<lparr>transactions = [], budgets = [],
      categories = [category_food_c1, category_food_c2, category_rent_c2]\<rparr> empty_database =
     (Inr \<lparr>status = ''success'', message = ''Backup completed successfully'',
           transactions_backed_up = 0, budgets_backed_up = 0, categories_backed_up = 3\<rparr>,
      \<lparr>transactions_table = [], budgets_table = [],
       categories_table =
         [category_food_c1\<lparr>c_icon := c_icon category_food_c2\<rparr>, category_rent_c2]\<rparr>) \<and>
   backup binary_storage reachable
     \<lparr>transactions = [], budgets = [],
      categories = [category_food_c1, category_food_c2, category_rent_c2]\<rparr>
     \<lparr>transactions_table = [], budgets_table = [],
       categories_table =
         [category_food_c1\<lparr>c_icon := c_icon category_food_c2\<rparr>, category_rent_c2]\<rparr> =
     (Inr \<lparr>status = ''success'', message = ''Backup completed successfully'',
           transactions_backed_up = 0, budgets_backed_up = 0, categories_backed_up = 3\<rparr>,
      \<lparr>transactions_table = [], budgets_table = [],
       categories_table = [category_food_c1, category_rent_c2]\<rparr>) \<and>
   category_food_c1\<lparr>c_icon := c_icon category_food_c2\<rparr> \<noteq> category_food_c1 \<and>
   r_categories (projr (fst (restore binary_storage reachable
     \<lparr>transactions_table = [], budgets_table = [],
       categories_table =
         [category_food_c1\<lparr>c_icon := c_icon category_food_c2\<rparr>, category_rent_c2]\<rparr>))) \<noteq>
   r_categories (projr (fst (restore binary_storage reachable
     \<lparr>transactions_table = ([] :: int Transaction list), budgets_table = [],
       categories_table = [category_food_c1, category_rent_c2]\<rparr>)))"
  by (simp add: backup_categories_no_faults store_category_examples
      restore_no_faults [OF no_faults_reachable]
      insert_into_categories_def same_key_def binary_storage_def empty_database_def)
     (simp add: category_examples)

section \<open>A backup into the empty database, restored\<close>

subsection \<open>Rows with keys of their own are all kept\<close>





subsection \<open>The first and the last category of a name\<close>




subsection \<open>The round trip\<close>






end
